theory Spec2Isabelle
  imports Main "HOL-Library.AList"
begin

section \<open>Atomic chess: the rules engine of ChessVar.py\<close>

subsection \<open>Python values and exceptions\<close>

text \<open>
  The exceptions the engine can raise: \<open>int(...)\<close> and \<open>list.index\<close> raise ValueError,
  indexing a string or a list out of range raises IndexError, a missing dictionary key
  raises KeyError. A raising call is the value \<open>Inl e\<close>.
\<close>

datatype error = ValueError | IndexError | KeyError

definition ebind :: "error + 'a \<Rightarrow> ('a \<Rightarrow> error + 'b) \<Rightarrow> error + 'b" where
  "ebind m f = (case m of Inl e \<Rightarrow> Inl e | Inr x \<Rightarrow> f x)"

text \<open>\<open>xs[i]\<close> on a Python sequence: a negative index counts from the end.\<close>

definition list_get :: "'a list \<Rightarrow> int \<Rightarrow> error + 'a" where
  "list_get xs i =
     (let n = int (length xs)
      in if - n \<le> i \<and> i < n then Inr (xs ! nat (if i < 0 then i + n else i))
         else Inl IndexError)"

text \<open>\<open>xs[i] = v\<close> on a Python list.\<close>

definition list_set :: "'a list \<Rightarrow> int \<Rightarrow> 'a \<Rightarrow> error + 'a list" where
  "list_set xs i v =
     (let n = int (length xs)
      in if - n \<le> i \<and> i < n then Inr (xs[nat (if i < 0 then i + n else i) := v])
         else Inl IndexError)"

text \<open>
  A character of a Python string is a Unicode code point, an integer, and a string the
  caller hands in is a list of them; \<open>py_str\<close> gives the code points of an ASCII literal. The short
  strings the program builds itself (the names of the pieces) are ASCII and stay HOL
  strings.
\<close>

type_synonym str = "int list"

definition py_str :: "string \<Rightarrow> str" where
  "py_str s = map of_char s"

text \<open>
  \<open>int(c)\<close> on a one-character string succeeds exactly on the decimal digits of Unicode
  and returns the value of the digit; on every other character it raises ValueError. The
  decimal digits come in runs of ten, zero to nine: \<open>decimal_zeros\<close> lists the zero of
  each run (Unicode 14.0, the table of CPython 3.11), ASCII \<open>0\<close> first.
\<close>

definition decimal_zeros :: "int list" where
  "decimal_zeros =
     [48, 1632, 1776, 1984, 2406, 2534, 2662, 2790, 2918, 3046,
      3174, 3302, 3430, 3558, 3664, 3792, 3872, 4160, 4240, 6112,
      6160, 6470, 6608, 6784, 6800, 6992, 7088, 7232, 7248, 42528,
      43216, 43264, 43472, 43504, 43600, 44016, 65296, 66720, 68912, 69734,
      69872, 69942, 70096, 70384, 70736, 70864, 71248, 71360, 71472, 71904,
      72016, 72784, 73040, 73120, 92768, 92864, 93008, 120782, 120792, 120802,
      120812, 120822, 123200, 123632, 125264, 130032]"

definition unicode_decimal :: "int \<Rightarrow> int option" where
  "unicode_decimal c =
     (case filter (\<lambda>z. z \<le> c \<and> c \<le> z + 9) decimal_zeros of
        [] \<Rightarrow> None
      | z # _ \<Rightarrow> Some (c - z))"

definition py_int :: "int \<Rightarrow> error + int" where
  "py_int c = (case unicode_decimal c of None \<Rightarrow> Inl ValueError | Some n \<Rightarrow> Inr n)"

text \<open>\<open>xs.index(x)\<close>.\<close>

fun index_py :: "'a list \<Rightarrow> 'a \<Rightarrow> error + int" where
  "index_py [] x = Inl ValueError"
| "index_py (y # ys) x =
     (if y = x then Inr 0
      else case index_py ys x of Inl e \<Rightarrow> Inl e | Inr i \<Rightarrow> Inr (i + 1))"

subsection \<open>Pieces\<close>

text \<open>
  A colour is one of the strings \<open>"w"\<close> and \<open>"b"\<close>: the constructors of the board
  and the turn of the game never store another one.
\<close>

datatype color = White | Black

datatype kind = Pawn | King | Knight | Rook | Bishop | Queen

text \<open>The strings the constructors store: \<open>"w"\<close>/\<open>"b"\<close> and the letter of the class.\<close>

fun color_str :: "color \<Rightarrow> string" where
  "color_str White = ''w''"
| "color_str Black = ''b''"

fun letter_str :: "kind \<Rightarrow> string" where
  "letter_str Pawn = ''P''"
| "letter_str King = ''K''"
| "letter_str Knight = ''N''"
| "letter_str Rook = ''R''"
| "letter_str Bishop = ''B''"
| "letter_str Queen = ''Q''"

datatype piece = Piece (get_color: color) (get_kind: kind)

definition get_piece :: "piece \<Rightarrow> string" where
  "get_piece p = color_str (get_color p) @ letter_str (get_kind p)"

definition get_type :: "piece \<Rightarrow> string" where
  "get_type p = letter_str (get_kind p)"

subsection \<open>The board\<close>

text \<open>
  A square holds a piece or the string \<open>"_"\<close> (\<open>None\<close>). The board is the dictionary
  of the source: rank (8 down to 1, in insertion order) to the list of the eight squares
  of that rank, files a to h at indices 0 to 7.
\<close>

type_synonym square = "piece option"

type_synonym board = "(int \<times> square list) list"

definition board_get :: "board \<Rightarrow> int \<Rightarrow> int \<Rightarrow> error + square" where
  "board_get bd row column =
     (case map_of bd row of None \<Rightarrow> Inl KeyError | Some squares \<Rightarrow> list_get squares column)"

text \<open>\<open>board[row][column] = v\<close>: the list stored under the key is updated in place.\<close>

definition board_set :: "board \<Rightarrow> int \<Rightarrow> int \<Rightarrow> square \<Rightarrow> error + board" where
  "board_set bd row column v =
     (case map_of bd row of
        None \<Rightarrow> Inl KeyError
      | Some squares \<Rightarrow>
          (case list_set squares column v of
             Inl e \<Rightarrow> Inl e
           | Inr squares' \<Rightarrow> Inr (AList.update row squares' bd)))"

definition back_rank :: "color \<Rightarrow> square list" where
  "back_rank c = map (\<lambda>k. Some (Piece c k))
     [Rook, Knight, Bishop, Queen, King, Bishop, Knight, Rook]"

definition initial_board :: board where
  "initial_board =
     [(8, back_rank Black),
      (7, replicate 8 (Some (Piece Black Pawn))),
      (6, replicate 8 None),
      (5, replicate 8 None),
      (4, replicate 8 None),
      (3, replicate 8 None),
      (2, replicate 8 (Some (Piece White Pawn))),
      (1, back_rank White)]"

subsection \<open>Algebraic notation\<close>

definition columns :: str where
  "columns = py_str ''abcdefgh''"

text \<open>
  The prologue every method repeats: \<open>row_A = int(point_A[1])\<close>,
  \<open>row_B = int(point_B[1])\<close>, \<open>column_A = columns.index(point_A[0])\<close>,
  \<open>column_B = columns.index(point_B[0])\<close>, in this order. The result is
  \<open>(row_A, row_B, column_A, column_B)\<close>.
\<close>

definition indices :: "str \<Rightarrow> str \<Rightarrow> error + (int \<times> int \<times> int \<times> int)" where
  "indices point_A point_B =
     ebind (ebind (list_get point_A 1) py_int) (\<lambda>row_A.
     ebind (ebind (list_get point_B 1) py_int) (\<lambda>row_B.
     ebind (ebind (list_get point_A 0) (index_py columns)) (\<lambda>column_A.
     ebind (ebind (list_get point_B 0) (index_py columns)) (\<lambda>column_B.
     Inr (row_A, row_B, column_A, column_B)))))"

subsection \<open>Movement rules\<close>

text \<open>
  \<open>for column in range(...): if board[row][column] != "_": return False\<close>, then
  \<open>return True\<close>.
\<close>

fun scan_columns :: "board \<Rightarrow> int \<Rightarrow> int list \<Rightarrow> error + bool" where
  "scan_columns bd row [] = Inr True"
| "scan_columns bd row (column # cs) =
     (case board_get bd row column of
        Inl e \<Rightarrow> Inl e
      | Inr s \<Rightarrow> if s \<noteq> None then Inr False else scan_columns bd row cs)"

text \<open>
  \<open>for row in range(...): if board[row][column] != "_": return False; column += step\<close>,
  then \<open>return True\<close>. The loops along a file leave the column alone (\<open>step = 0\<close>).
\<close>

fun scan_rows :: "board \<Rightarrow> int list \<Rightarrow> int \<Rightarrow> int \<Rightarrow> error + bool" where
  "scan_rows bd [] column step = Inr True"
| "scan_rows bd (row # rs) column step =
     (case board_get bd row column of
        Inl e \<Rightarrow> Inl e
      | Inr s \<Rightarrow> if s \<noteq> None then Inr False else scan_rows bd rs (column + step) step)"

definition Pawn_get_movement :: "str \<Rightarrow> str \<Rightarrow> color \<Rightarrow> board \<Rightarrow> error + bool" where
  "Pawn_get_movement point_A point_B col bd =
     ebind (indices point_A point_B) (\<lambda>(row_A, row_B, column_A, column_B).
       case col of
         White \<Rightarrow>
           if row_A = 2 \<and> column_A = column_B then
             (if row_B - row_A = 1 \<or> row_B - row_A = 2 then Inr True else Inr False)
           else ebind (board_get bd row_B column_B) (\<lambda>space_B.
             if space_B \<noteq> None \<and> row_B - row_A = 1 then
               (if \<bar>column_A - column_B\<bar> = 1 then Inr True else Inr False)
             else if space_B = None \<and> column_A = column_B \<and> row_B - row_A = 1 then Inr True
             else Inr False)
       | Black \<Rightarrow>
           if row_A = 7 \<and> column_A = column_B then
             (if row_A - row_B = 1 \<or> row_A - row_B = 2 then Inr True else Inr False)
           else ebind (board_get bd row_B column_B) (\<lambda>space_B.
             if space_B \<noteq> None \<and> row_A - row_B = 1 then
               (if \<bar>column_B - column_A\<bar> = 1 then Inr True else Inr False)
             else if space_B = None \<and> column_A = column_B \<and> row_A - row_B = 1 then Inr True
             else Inr False))"

definition King_get_movement :: "str \<Rightarrow> str \<Rightarrow> color \<Rightarrow> board \<Rightarrow> error + bool" where
  "King_get_movement point_A point_B col bd =
     ebind (indices point_A point_B) (\<lambda>(row_A, row_B, column_A, column_B).
     ebind (board_get bd row_B column_B) (\<lambda>space_B.
       if space_B \<noteq> None then Inr False
       else if row_A = row_B \<and> \<bar>column_A - column_B\<bar> = 1 then Inr True
       else if column_A = column_B \<and> \<bar>row_A - row_B\<bar> = 1 then Inr True
       else if \<bar>column_A - column_B\<bar> = 1 \<and> \<bar>row_A - row_B\<bar> = 1 then Inr True
       else Inr False))"

definition Knight_get_movement :: "str \<Rightarrow> str \<Rightarrow> color \<Rightarrow> board \<Rightarrow> error + bool" where
  "Knight_get_movement point_A point_B col bd =
     ebind (indices point_A point_B) (\<lambda>(row_A, row_B, column_A, column_B).
       if \<bar>row_A - row_B\<bar> = 2 \<and> \<bar>column_A - column_B\<bar> = 1 then Inr True
       else if \<bar>column_A - column_B\<bar> = 2 \<and> \<bar>row_A - row_B\<bar> = 1 then Inr True
       else Inr False)"

text \<open>The four straight-line branches shared, word for word, by Rook and Queen.\<close>

definition Rook_get_movement :: "str \<Rightarrow> str \<Rightarrow> color \<Rightarrow> board \<Rightarrow> error + bool" where
  "Rook_get_movement point_A point_B col bd =
     ebind (indices point_A point_B) (\<lambda>(row_A, row_B, column_A, column_B).
       if row_A = row_B \<and> column_A < column_B then
         scan_columns bd row_A [column_A + 1 .. column_B - 1]
       else if row_A = row_B \<and> column_A > column_B then
         scan_columns bd row_A [column_B + 1 .. column_A - 1]
       else if column_A = column_B \<and> row_A < row_B then
         scan_rows bd [row_A + 1 .. row_B - 1] column_A 0
       else if column_A = column_B \<and> row_A > row_B then
         scan_rows bd [row_B + 1 .. row_A - 1] column_A 0
       else Inr False)"

definition Bishop_get_movement :: "str \<Rightarrow> str \<Rightarrow> color \<Rightarrow> board \<Rightarrow> error + bool" where
  "Bishop_get_movement point_A point_B col bd =
     ebind (indices point_A point_B) (\<lambda>(row_A, row_B, column_A, column_B).
       if row_A = row_B \<or> column_A = column_B then Inr False
       else if \<bar>row_A - row_B\<bar> \<noteq> \<bar>column_A - column_B\<bar> then Inr False
       else if row_A < row_B \<and> column_A < column_B then
         scan_rows bd [row_A + 1 .. row_B - 1] (column_A + 1) 1
       else if row_A < row_B \<and> column_A > column_B then
         scan_rows bd [row_A + 1 .. row_B - 1] (column_A - 1) (- 1)
       else if row_A > row_B \<and> column_A < column_B then
         scan_rows bd [row_B + 1 .. row_A - 1] (column_B - 1) (- 1)
       else if row_A > row_B \<and> column_A > column_B then
         scan_rows bd [row_B + 1 .. row_A - 1] (column_B + 1) 1
       else Inr False)"

definition Queen_get_movement :: "str \<Rightarrow> str \<Rightarrow> color \<Rightarrow> board \<Rightarrow> error + bool" where
  "Queen_get_movement point_A point_B col bd =
     ebind (indices point_A point_B) (\<lambda>(row_A, row_B, column_A, column_B).
       if row_A = row_B \<and> column_A < column_B then
         scan_columns bd row_A [column_A + 1 .. column_B - 1]
       else if row_A = row_B \<and> column_A > column_B then
         scan_columns bd row_A [column_B + 1 .. column_A - 1]
       else if column_A = column_B \<and> row_A < row_B then
         scan_rows bd [row_A + 1 .. row_B - 1] column_A 0
       else if column_A = column_B \<and> row_A > row_B then
         scan_rows bd [row_B + 1 .. row_A - 1] column_A 0
       else if row_A < row_B \<and> column_A < column_B then
         scan_rows bd [row_A + 1 .. row_B - 1] (column_A + 1) 1
       else if row_A < row_B \<and> column_A > column_B then
         scan_rows bd [row_A + 1 .. row_B - 1] (column_A - 1) (- 1)
       else if row_A > row_B \<and> column_A < column_B then
         scan_rows bd [row_B + 1 .. row_A - 1] (column_B - 1) (- 1)
       else if row_A > row_B \<and> column_A > column_B then
         scan_rows bd [row_B + 1 .. row_A - 1] (column_B + 1) 1
       else Inr False)"

text \<open>The method call \<open>space_A.get_movement(...)\<close> dispatches on the class of the piece.\<close>

fun get_movement :: "piece \<Rightarrow> str \<Rightarrow> str \<Rightarrow> color \<Rightarrow> board \<Rightarrow> error + bool" where
  "get_movement (Piece c Pawn) = Pawn_get_movement"
| "get_movement (Piece c King) = King_get_movement"
| "get_movement (Piece c Knight) = Knight_get_movement"
| "get_movement (Piece c Rook) = Rook_get_movement"
| "get_movement (Piece c Bishop) = Bishop_get_movement"
| "get_movement (Piece c Queen) = Queen_get_movement"

subsection \<open>ChessBoard.check_move\<close>

text \<open>
  The double loop over the 3x3 block around the destination, with its two flags
  \<open>(dead_white, dead_black)\<close>. Both assignments of the source write \<open>dead_white\<close>.
\<close>

fun dead_columns :: "board \<Rightarrow> int \<Rightarrow> int list \<Rightarrow> bool \<times> bool \<Rightarrow> error + (bool \<times> bool)" where
  "dead_columns bd row [] flags = Inr flags"
| "dead_columns bd row (column # cs) (dead_white, dead_black) =
     (if row < 1 \<or> row > 8 \<or> column < 0 \<or> column > 7 then
        dead_columns bd row cs (dead_white, dead_black)
      else case board_get bd row column of
        Inl e \<Rightarrow> Inl e
      | Inr None \<Rightarrow> dead_columns bd row cs (dead_white, dead_black)
      | Inr (Some p) \<Rightarrow>
          (let dead_white1 = (if get_piece p = ''wK'' then True else dead_white);
               dead_white2 = (if get_piece p = ''bK'' then True else dead_white1)
           in dead_columns bd row cs (dead_white2, dead_black)))"

fun dead_rows :: "board \<Rightarrow> int list \<Rightarrow> int list \<Rightarrow> bool \<times> bool \<Rightarrow> error + (bool \<times> bool)" where
  "dead_rows bd [] cs flags = Inr flags"
| "dead_rows bd (row # rs) cs flags =
     (case dead_columns bd row cs flags of
        Inl e \<Rightarrow> Inl e
      | Inr flags' \<Rightarrow> dead_rows bd rs cs flags')"

definition check_move :: "str \<Rightarrow> str \<Rightarrow> color \<Rightarrow> board \<Rightarrow> error + bool" where
  "check_move point_A point_B col bd =
     ebind (indices point_A point_B) (\<lambda>(row_A, row_B, column_A, column_B).
     ebind (board_get bd row_A column_A) (\<lambda>space_A.
     ebind (board_get bd row_B column_B) (\<lambda>space_B.
       case space_A of
         None \<Rightarrow> Inr False
       | Some piece_A \<Rightarrow>
           if get_color piece_A \<noteq> col then Inr False
           else if (case space_B of None \<Rightarrow> False | Some piece_B \<Rightarrow> get_color piece_B = col)
             then Inr False
           else if column_B > 7 \<or> column_B < 0 \<or> row_B > 8 \<or> row_B < 0 then Inr False
           else
             ebind (get_movement piece_A point_A point_B col bd) (\<lambda>result.
               if \<not> result then Inr False
               else
                 ebind (dead_rows bd [row_B - 1 .. row_B + 1] [column_B - 1 .. column_B + 1]
                          (False, False)) (\<lambda>(dead_white, dead_black).
                   if dead_white \<and> dead_black then Inr False else Inr True)))))"

subsection \<open>ChessBoard.move_piece\<close>

text \<open>One pass of the body of the explosion loop, on the square \<open>(row, column)\<close>.\<close>

definition explode_square :: "board \<Rightarrow> int \<Rightarrow> int \<Rightarrow> error + board" where
  "explode_square bd row column =
     (if row < 1 \<or> row > 8 \<or> column < 0 \<or> column > 7 then Inr bd
      else case board_get bd row column of
        Inl e \<Rightarrow> Inl e
      | Inr None \<Rightarrow> Inr bd
      | Inr (Some p) \<Rightarrow>
          if get_type p = ''P'' then Inr bd else board_set bd row column None)"

fun explode_columns :: "board \<Rightarrow> int \<Rightarrow> int list \<Rightarrow> error + board" where
  "explode_columns bd row [] = Inr bd"
| "explode_columns bd row (column # cs) =
     (case explode_square bd row column of
        Inl e \<Rightarrow> Inl e
      | Inr bd' \<Rightarrow> explode_columns bd' row cs)"

fun explode_rows :: "board \<Rightarrow> int list \<Rightarrow> int list \<Rightarrow> error + board" where
  "explode_rows bd [] cs = Inr bd"
| "explode_rows bd (row # rs) cs =
     (case explode_columns bd row cs of
        Inl e \<Rightarrow> Inl e
      | Inr bd' \<Rightarrow> explode_rows bd' rs cs)"

definition move_piece :: "str \<Rightarrow> str \<Rightarrow> board \<Rightarrow> error + board" where
  "move_piece point_A point_B bd =
     ebind (indices point_A point_B) (\<lambda>(row_A, row_B, column_A, column_B).
     ebind (board_get bd row_B column_B) (\<lambda>space_B.
       if space_B = None then
         ebind (board_get bd row_A column_A) (\<lambda>space_A.
         ebind (board_set bd row_B column_B space_A) (\<lambda>bd1.
         board_set bd1 row_A column_A None))
       else
         ebind (board_set bd row_A column_A None) (\<lambda>bd1.
         ebind (board_set bd1 row_B column_B None) (\<lambda>bd2.
         explode_rows bd2 [row_B - 1 .. row_B + 1] [column_B - 1 .. column_B + 1]))))"

subsection \<open>The game: ChessVar\<close>

text \<open>The three strings \<open>_game_state\<close> is ever set to.\<close>

datatype status = UNFINISHED | WHITE_WON | BLACK_WON

record game =
  board :: board
  game_state :: status
  turn :: color

definition new_game :: game where
  "new_game = \<lparr>board = initial_board, game_state = UNFINISHED, turn = White\<rparr>"

text \<open>
  ChessBoard.check_king: the loop over every square of every row, with the flags
  \<open>(white_king, black_king)\<close>, then the two calls of \<open>set_game_state\<close>.
\<close>

fun scan_kings :: "square list \<Rightarrow> bool \<times> bool \<Rightarrow> bool \<times> bool" where
  "scan_kings [] flags = flags"
| "scan_kings (None # ss) flags = scan_kings ss flags"
| "scan_kings (Some p # ss) (white_king, black_king) =
     scan_kings ss
       (if get_piece p = ''wK'' then True else white_king,
        if get_piece p = ''bK'' then True else black_king)"

definition check_king :: "game \<Rightarrow> game" where
  "check_king g =
     (case scan_kings (concat (map snd (board g))) (False, False) of
        (white_king, black_king) \<Rightarrow>
          (let g1 = (if black_king \<and> \<not> white_king then g\<lparr>game_state := BLACK_WON\<rparr> else g)
           in if white_king \<and> \<not> black_king then g1\<lparr>game_state := WHITE_WON\<rparr> else g1))"

text \<open>
  The body of make_move, before the decorator: the result is the returned boolean and
  the game as the call leaves it. An exception leaves through \<open>Inl\<close>; on a board of the
  shape the constructor builds only check_move can raise, before anything is assigned
  (lemma \<open>move_piece_after_check\<close> below). The message printed for a finished game is
  left out.
\<close>

definition make_move_body :: "game \<Rightarrow> str \<Rightarrow> str \<Rightarrow> error + (bool \<times> game)" where
  "make_move_body g point_A point_B =
     (if game_state g \<noteq> UNFINISHED then Inr (False, g)
      else
        ebind (check_move point_A point_B (turn g) (board g)) (\<lambda>result.
          if \<not> result then Inr (False, g)
          else
            ebind (move_piece point_A point_B (board g)) (\<lambda>bd'.
              Inr (True, check_king (g\<lparr>board := bd'\<rparr>)))))"

text \<open>move_decorator: after the wrapped call returned True, the turn changes colour.\<close>

definition move_decorator ::
  "(game \<Rightarrow> str \<Rightarrow> str \<Rightarrow> error + (bool \<times> game)) \<Rightarrow>
     game \<Rightarrow> str \<Rightarrow> str \<Rightarrow> error + (bool \<times> game)" where
  "move_decorator function g point_A point_B =
     ebind (function g point_A point_B) (\<lambda>(result, g').
       if result then
         Inr (result, g'\<lparr>turn := (case turn g' of White \<Rightarrow> Black | Black \<Rightarrow> White)\<rparr>)
       else Inr (result, g'))"

definition make_move :: "game \<Rightarrow> str \<Rightarrow> str \<Rightarrow> error + (bool \<times> game)" where
  "make_move = move_decorator make_move_body"

text \<open>A sequence of calls of make_move, each on the game the previous one left.\<close>

fun play :: "game \<Rightarrow> (str \<times> str) list \<Rightarrow> error + (bool list \<times> game)" where
  "play g [] = Inr ([], g)"
| "play g ((point_A, point_B) # ms) =
     (case make_move g point_A point_B of
        Inl e \<Rightarrow> Inl e
      | Inr (result, g') \<Rightarrow>
          (case play g' ms of
             Inl e \<Rightarrow> Inl e
           | Inr (results, g'') \<Rightarrow> Inr (result # results, g'')))"

subsection \<open>Vocabulary of the specification\<close>

text \<open>
  What the code reads as a square of the board: a first character among a to h and a second
  character that is a decimal digit of value 1 to 8. Characters after the second are never
  read.
\<close>

definition well_formed :: "str \<Rightarrow> bool" where
  "well_formed p =
     (case p of
        f # r # _ \<Rightarrow>
          f \<in> set columns \<and>
          (case unicode_decimal r of None \<Rightarrow> False | Some n \<Rightarrow> 1 \<le> n \<and> n \<le> 8)
      | _ \<Rightarrow> False)"

text \<open>
  The shape the constructor gives the board and every assignment keeps: the keys 8 down to
  1, eight squares under each.
\<close>

definition wf_board :: "board \<Rightarrow> bool" where
  "wf_board bd =
     (map fst bd = [8, 7, 6, 5, 4, 3, 2, 1] \<and> list_all (\<lambda>squares. length squares = 8) (map snd bd))"

definition in_bounds :: "int \<Rightarrow> int \<Rightarrow> bool" where
  "in_bounds row column = (1 \<le> row \<and> row \<le> 8 \<and> 0 \<le> column \<and> column \<le> 7)"

text \<open>The 3x3 block centred on \<open>(row_B, column_B)\<close>.\<close>

definition in_blast :: "int \<Rightarrow> int \<Rightarrow> int \<Rightarrow> int \<Rightarrow> bool" where
  "in_blast row_B column_B row column =
     (\<bar>row - row_B\<bar> \<le> 1 \<and> \<bar>column - column_B\<bar> \<le> 1)"

definition all_squares :: "(int \<times> int) list" where
  "all_squares = concat (map (\<lambda>row. map (\<lambda>column. (row, column)) [0 .. 7]) [1 .. 8])"

text \<open>Some square of the 64 holds the king of the colour.\<close>

definition has_king :: "board \<Rightarrow> color \<Rightarrow> bool" where
  "has_king bd c =
     list_ex (\<lambda>(row, column). board_get bd row column = Inr (Some (Piece c King))) all_squares"

text \<open>
  What a square holds, for stating properties: \<open>None\<close> also where the read raises.
\<close>

definition cell :: "board \<Rightarrow> int \<Rightarrow> int \<Rightarrow> square" where
  "cell bd row column = (case board_get bd row column of Inl e \<Rightarrow> None | Inr s \<Rightarrow> s)"

text \<open>What the explosion leaves of a square: a pawn stays, anything else goes.\<close>

definition survivor :: "square \<Rightarrow> square" where
  "survivor s = (case s of None \<Rightarrow> None | Some p \<Rightarrow> if get_kind p = Pawn then Some p else None)"

subsection \<open>Positions used as concrete inputs\<close>

text \<open>The game after White's opening move e2-e4.\<close>

definition after_e2e4 :: game where
  "after_e2e4 =
     \<lparr>board =
        [(8, back_rank Black),
         (7, replicate 8 (Some (Piece Black Pawn))),
         (6, replicate 8 None),
         (5, replicate 8 None),
         (4, [None, None, None, None, Some (Piece White Pawn), None, None, None]),
         (3, replicate 8 None),
         (2, [Some (Piece White Pawn), Some (Piece White Pawn), Some (Piece White Pawn),
              Some (Piece White Pawn), None, Some (Piece White Pawn), Some (Piece White Pawn),
              Some (Piece White Pawn)]),
         (1, back_rank White)],
      game_state = UNFINISHED, turn = Black\<rparr>"

text \<open>
  A short game in which a white knight captures the pawn on e7, next to the black king.
\<close>

definition knight_takes_e7 :: "(str \<times> str) list" where
  "knight_takes_e7 =
     [((py_str ''b1''), (py_str ''c3'')), ((py_str ''a7''), (py_str ''a6'')), ((py_str ''c3''), (py_str ''d5'')), ((py_str ''a6''), (py_str ''a5'')), ((py_str ''d5''), (py_str ''e7''))]"

definition black_king_gone :: board where
  "black_king_gone =
     [(8, [Some (Piece Black Rook), Some (Piece Black Knight), Some (Piece Black Bishop),
           None, None, None, Some (Piece Black Knight), Some (Piece Black Rook)]),
      (7, [None, Some (Piece Black Pawn), Some (Piece Black Pawn), Some (Piece Black Pawn),
           None, Some (Piece Black Pawn), Some (Piece Black Pawn), Some (Piece Black Pawn)]),
      (6, replicate 8 None),
      (5, [Some (Piece Black Pawn), None, None, None, None, None, None, None]),
      (4, replicate 8 None),
      (3, replicate 8 None),
      (2, replicate 8 (Some (Piece White Pawn))),
      (1, [Some (Piece White Rook), None, Some (Piece White Bishop), Some (Piece White Queen),
           Some (Piece White King), Some (Piece White Bishop), Some (Piece White Knight),
           Some (Piece White Rook)])]"

text \<open>The board of that game before the capture, the knight on d5.\<close>

definition knight_on_d5 :: board where
  "knight_on_d5 =
     [(8, back_rank Black),
      (7, [None, Some (Piece Black Pawn), Some (Piece Black Pawn), Some (Piece Black Pawn),
           Some (Piece Black Pawn), Some (Piece Black Pawn), Some (Piece Black Pawn),
           Some (Piece Black Pawn)]),
      (6, replicate 8 None),
      (5, [Some (Piece Black Pawn), None, None, Some (Piece White Knight), None, None, None,
           None]),
      (4, replicate 8 None),
      (3, replicate 8 None),
      (2, replicate 8 (Some (Piece White Pawn))),
      (1, [Some (Piece White Rook), None, Some (Piece White Bishop), Some (Piece White Queen),
           Some (Piece White King), Some (Piece White Bishop), Some (Piece White Knight),
           Some (Piece White Rook)])]"

text \<open>
  A game in which a white pawn captures on e5 with both kings next to that square: the
  moves, the game before the capture and the game after it.
\<close>

definition both_kings_blast :: "(str \<times> str) list" where
  "both_kings_blast =
     [((py_str ''e2''), (py_str ''e4'')), ((py_str ''e7''), (py_str ''e5'')), ((py_str ''e1''), (py_str ''e2'')), ((py_str ''e8''), (py_str ''e7'')), ((py_str ''e2''), (py_str ''f3'')),
      ((py_str ''e7''), (py_str ''f6'')), ((py_str ''f3''), (py_str ''f4'')), ((py_str ''a7''), (py_str ''a6'')), ((py_str ''d2''), (py_str ''d4'')), ((py_str ''a6''), (py_str ''a5'')),
      ((py_str ''d4''), (py_str ''e5''))]"

definition kings_by_e5 :: game where
  "kings_by_e5 =
     \<lparr>board =
        [(8, [Some (Piece Black Rook), Some (Piece Black Knight), Some (Piece Black Bishop),
              Some (Piece Black Queen), None, Some (Piece Black Bishop),
              Some (Piece Black Knight), Some (Piece Black Rook)]),
         (7, [None, Some (Piece Black Pawn), Some (Piece Black Pawn), Some (Piece Black Pawn),
              None, Some (Piece Black Pawn), Some (Piece Black Pawn), Some (Piece Black Pawn)]),
         (6, [None, None, None, None, None, Some (Piece Black King), None, None]),
         (5, [Some (Piece Black Pawn), None, None, None, Some (Piece Black Pawn), None, None,
              None]),
         (4, [None, None, None, Some (Piece White Pawn), Some (Piece White Pawn),
              Some (Piece White King), None, None]),
         (3, replicate 8 None),
         (2, [Some (Piece White Pawn), Some (Piece White Pawn), Some (Piece White Pawn), None,
              None, Some (Piece White Pawn), Some (Piece White Pawn), Some (Piece White Pawn)]),
         (1, [Some (Piece White Rook), Some (Piece White Knight), Some (Piece White Bishop),
              Some (Piece White Queen), None, Some (Piece White Bishop),
              Some (Piece White Knight), Some (Piece White Rook)])],
      game_state = UNFINISHED, turn = White\<rparr>"

definition kingless :: game where
  "kingless =
     \<lparr>board =
        [(8, [Some (Piece Black Rook), Some (Piece Black Knight), Some (Piece Black Bishop),
              Some (Piece Black Queen), None, Some (Piece Black Bishop),
              Some (Piece Black Knight), Some (Piece Black Rook)]),
         (7, [None, Some (Piece Black Pawn), Some (Piece Black Pawn), Some (Piece Black Pawn),
              None, Some (Piece Black Pawn), Some (Piece Black Pawn), Some (Piece Black Pawn)]),
         (6, replicate 8 None),
         (5, [Some (Piece Black Pawn), None, None, None, None, None, None, None]),
         (4, [None, None, None, None, Some (Piece White Pawn), None, None, None]),
         (3, replicate 8 None),
         (2, [Some (Piece White Pawn), Some (Piece White Pawn), Some (Piece White Pawn), None,
              None, Some (Piece White Pawn), Some (Piece White Pawn), Some (Piece White Pawn)]),
         (1, [Some (Piece White Rook), Some (Piece White Knight), Some (Piece White Bishop),
              Some (Piece White Queen), None, Some (Piece White Bishop),
              Some (Piece White Knight), Some (Piece White Rook)])],
      game_state = UNFINISHED, turn = Black\<rparr>"

text \<open>The game in which the knight has captured on e7: the black king gone, White has won.\<close>

definition white_won :: game where
  "white_won = \<lparr>board = black_king_gone, game_state = WHITE_WON, turn = Black\<rparr>"

section \<open>Properties\<close>

subsection \<open>Reading algebraic notation\<close>

lemma index_py_range: "index_py xs x = Inr i \<Longrightarrow> 0 \<le> i \<and> i < int (length xs)"
  by (induction xs arbitrary: i) (auto split: if_splits sum.splits)

lemma index_py_mem: "x \<in> set xs \<Longrightarrow> \<exists>i. index_py xs x = Inr i"
  by (induction xs) (auto split: sum.splits)

lemma index_py_Inr_mem: "index_py xs x = Inr i \<Longrightarrow> x \<in> set xs"
  by (induction xs arbitrary: i) (auto split: if_splits sum.splits)

lemma ebind_Inr_iff: "ebind m f = Inr y \<longleftrightarrow> (\<exists>x. m = Inr x \<and> f x = Inr y)"
  by (cases m) (simp_all add: ebind_def)

lemma ebind_Inl_iff:
  "ebind m f = Inl e \<longleftrightarrow> m = Inl e \<or> (\<exists>x. m = Inr x \<and> f x = Inl e)"
  by (cases m) (simp_all add: ebind_def)

lemma ebind_Inr [simp]: "ebind (Inr x) f = f x"
  by (simp add: ebind_def)

lemma ebind_Inl [simp]: "ebind (Inl e) f = Inl e"
  by (simp add: ebind_def)

lemma indices_Inr:
  "indices pa pb = Inr (rA, rB, cA, cB) \<longleftrightarrow>
     ebind (list_get pa 1) py_int = Inr rA \<and> ebind (list_get pb 1) py_int = Inr rB \<and>
     ebind (list_get pa 0) (index_py columns) = Inr cA \<and>
     ebind (list_get pb 0) (index_py columns) = Inr cB"
proof (cases "ebind (list_get pa 1) py_int")
  case Inl
  then show ?thesis by (simp add: indices_def)
next
  case a: (Inr rA')
  show ?thesis
  proof (cases "ebind (list_get pb 1) py_int")
    case Inl
    with a show ?thesis by (simp add: indices_def)
  next
    case b: (Inr rB')
    show ?thesis
    proof (cases "ebind (list_get pa 0) (index_py columns)")
      case Inl
      with a b show ?thesis by (simp add: indices_def)
    next
      case c: (Inr cA')
      show ?thesis
      proof (cases "ebind (list_get pb 0) (index_py columns)")
        case Inl
        with a b c show ?thesis by (simp add: indices_def)
      next
        case (Inr cB')
        with a b c show ?thesis by (simp add: indices_def)
      qed
    qed
  qed
qed

lemma point_col_range:
  assumes "ebind (list_get p 0) (index_py columns) = Inr c"
  shows "0 \<le> c \<and> c \<le> 7"
proof -
  from assms obtain f where "index_py columns f = Inr c"
    by (auto simp only: ebind_Inr_iff)
  from index_py_range[OF this] show ?thesis
    by (simp add: columns_def py_str_def)
qed

lemma py_int_Inr: "py_int x = Inr r \<longleftrightarrow> unicode_decimal x = Some r"
  by (auto simp: py_int_def split: option.splits)

lemma point_row_wf:
  assumes "ebind (list_get p 1) py_int = Inr r"
    and "ebind (list_get p 0) (index_py columns) = Inr c"
  shows "well_formed p = (1 \<le> r \<and> r \<le> 8)"
proof -
  from assms(1) obtain f x rest where p: "p = f # x # rest"
    by (cases p; cases "tl p") (auto simp: ebind_def list_get_def)
  from assms(1) p have "py_int x = Inr r"
    by (simp add: ebind_def list_get_def)
  then have n: "unicode_decimal x = Some r"
    by (simp only: py_int_Inr)
  from assms(2) p have "index_py columns f = Inr c"
    by (simp add: ebind_def list_get_def)
  then have f: "f \<in> set columns"
    by (rule index_py_Inr_mem)
  from p f n show ?thesis
    by (simp add: well_formed_def)
qed

lemma well_formed_parses:
  assumes "well_formed p"
  shows "\<exists>r c. ebind (list_get p 1) py_int = Inr r \<and>
           ebind (list_get p 0) (index_py columns) = Inr c"
proof -
  from assms obtain f x rest n where p: "p = f # x # rest"
    and f: "f \<in> set columns" and x: "unicode_decimal x = Some n"
    by (auto simp: well_formed_def split: list.splits option.splits)
  from x have "py_int x = Inr n"
    by (simp add: py_int_def)
  moreover from f obtain c where "index_py columns f = Inr c"
    using index_py_mem[of f columns] by blast
  ultimately show ?thesis using p
    by (simp add: ebind_def list_get_def)
qed

lemma well_formed_indices:
  assumes "well_formed pa" and "well_formed pb"
  shows "\<exists>rA rB cA cB. indices pa pb = Inr (rA, rB, cA, cB) \<and>
           in_bounds rA cA \<and> in_bounds rB cB"
proof -
  from well_formed_parses[OF assms(1)] obtain rA cA where
    a: "ebind (list_get pa 1) py_int = Inr rA" "ebind (list_get pa 0) (index_py columns) = Inr cA"
    by blast
  from well_formed_parses[OF assms(2)] obtain rB cB where
    b: "ebind (list_get pb 1) py_int = Inr rB" "ebind (list_get pb 0) (index_py columns) = Inr cB"
    by blast
  have "indices pa pb = Inr (rA, rB, cA, cB)"
    using a b by (simp only: indices_Inr simp_thms)
  moreover have "in_bounds rA cA"
    using point_row_wf[OF a] point_col_range[OF a(2)] assms(1) by (simp only: in_bounds_def simp_thms)
  moreover have "in_bounds rB cB"
    using point_row_wf[OF b] point_col_range[OF b(2)] assms(2) by (simp only: in_bounds_def simp_thms)
  ultimately show ?thesis by blast
qed

lemma indices_bounds:
  assumes "indices pa pb = Inr (rA, rB, cA, cB)"
  shows "0 \<le> cA \<and> cA \<le> 7 \<and> 0 \<le> cB \<and> cB \<le> 7 \<and>
         well_formed pa = (1 \<le> rA \<and> rA \<le> 8) \<and> well_formed pb = (1 \<le> rB \<and> rB \<le> 8)"
proof -
  from assms have
    a: "ebind (list_get pa 1) py_int = Inr rA" "ebind (list_get pa 0) (index_py columns) = Inr cA"
    and b: "ebind (list_get pb 1) py_int = Inr rB" "ebind (list_get pb 0) (index_py columns) = Inr cB"
    by (simp_all only: indices_Inr)
  show ?thesis
    using point_row_wf[OF a] point_row_wf[OF b] point_col_range[OF a(2)] point_col_range[OF b(2)]
    by blast
qed

subsection \<open>The shape of the board\<close>

lemma wf_board_row:
  assumes "wf_board bd" and "1 \<le> r" and "r \<le> 8"
  shows "\<exists>squares. map_of bd r = Some squares \<and> length squares = 8"
proof -
  have "r \<in> set [8, 7, 6, 5, 4, 3, 2, 1 :: int]"
    using assms(2,3) by simp presburger
  then have "r \<in> fst ` set bd"
    using assms(1) by (metis wf_board_def list.set_map)
  then obtain squares where s: "map_of bd r = Some squares"
    by (metis map_of_eq_None_iff not_Some_eq)
  then have "squares \<in> set (map snd bd)"
    by (metis map_of_SomeD image_eqI list.set_map snd_conv)
  then have "length squares = 8"
    using assms(1) by (auto simp: wf_board_def list_all_iff)
  with s show ?thesis by blast
qed

lemma wf_board_no_row:
  assumes "wf_board bd" and "r < 1 \<or> 8 < r"
  shows "map_of bd r = None"
proof -
  have "r \<notin> set [8, 7, 6, 5, 4, 3, 2, 1 :: int]"
    using assms(2) by auto
  then have "r \<notin> fst ` set bd"
    using assms(1) by (metis wf_board_def list.set_map)
  then show ?thesis by (simp add: map_of_eq_None_iff)
qed

lemma board_get_in_bounds:
  assumes "wf_board bd" and "in_bounds r c"
  shows "\<exists>s. board_get bd r c = Inr s"
  using wf_board_row[OF assms(1), of r] assms(2)
  by (auto simp: board_get_def list_get_def in_bounds_def)

lemma board_get_KeyError:
  assumes "wf_board bd" and "r < 1 \<or> 8 < r"
  shows "board_get bd r c = Inl KeyError"
  using wf_board_no_row[OF assms] by (simp add: board_get_def)

lemma board_get_Inr_row:
  assumes "wf_board bd" and "board_get bd r c = Inr s"
  shows "1 \<le> r \<and> r \<le> 8"
  using board_get_KeyError[OF assms(1), of r c] assms(2) by (cases "r < 1 \<or> 8 < r") auto

lemma wf_board_update:
  assumes "wf_board bd" and "map_of bd r = Some squares" and "length squares' = 8"
  shows "wf_board (AList.update r squares' bd)"
proof -
  have k: "r \<in> set (map fst bd)"
    using assms(2) by (metis map_of_eq_None_iff option.distinct(1) list.set_map)
  have "set (map snd (AList.update r squares' bd)) \<subseteq> insert squares' (set (map snd bd))"
    by (induction bd) auto
  with assms(1,3) k show ?thesis
    by (auto simp: wf_board_def update_keys list_all_iff)
qed

lemma board_set_in_bounds:
  assumes "wf_board bd" and "in_bounds r c"
  shows "\<exists>bd'. board_set bd r c v = Inr bd' \<and> wf_board bd' \<and>
           (\<forall>r' c'. in_bounds r' c' \<longrightarrow>
              board_get bd' r' c' = (if r' = r \<and> c' = c then Inr v else board_get bd r' c'))"
proof -
  from wf_board_row[OF assms(1), of r] assms(2) obtain squares where
    s: "map_of bd r = Some squares" "length squares = 8"
    by (auto simp: in_bounds_def)
  let ?sq = "squares[nat c := v]"
  have set: "board_set bd r c v = Inr (AList.update r ?sq bd)"
    using s assms(2) by (simp add: board_set_def list_set_def in_bounds_def)
  have wf: "wf_board (AList.update r ?sq bd)"
    using wf_board_update[OF assms(1) s(1)] s(2) by simp
  have "board_get (AList.update r ?sq bd) r' c' =
          (if r' = r \<and> c' = c then Inr v else board_get bd r' c')" if "in_bounds r' c'" for r' c'
    using that s assms(2)
    by (auto simp: board_get_def update_conv' list_get_def in_bounds_def nth_list_update)
  with set wf show ?thesis by blast
qed

subsection \<open>The game: turn and status\<close>

lemma check_king_turn: "turn (check_king g) = turn g"
  by (simp add: check_king_def Let_def split: prod.splits)

lemma check_king_board: "board (check_king g) = board g"
  by (simp add: check_king_def Let_def split: prod.splits)

lemma make_move_body_cases:
  assumes "make_move_body g pa pb = Inr (res, g')"
  shows "(\<not> res \<and> g' = g) \<or>
         (res \<and> game_state g = UNFINISHED \<and> check_move pa pb (turn g) (board g) = Inr True \<and>
            (\<exists>bd'. move_piece pa pb (board g) = Inr bd' \<and> g' = check_king (g\<lparr>board := bd'\<rparr>)))"
  using assms
  by (auto simp: make_move_body_def ebind_Inr_iff split: if_splits)

lemma flip_turn: "(case c of White \<Rightarrow> Black | Black \<Rightarrow> White) \<noteq> c"
  by (cases c) simp_all

lemma make_move_e2e4: "make_move new_game (py_str ''e2'') (py_str ''e4'') = Inr (True, after_e2e4)"
  by code_simp

lemma make_move_e2e5: "make_move new_game (py_str ''e2'') (py_str ''e5'') = Inr (False, new_game)"
  by code_simp

text \<open>
  Claim C6. Whenever make_move returns, the turn has changed colour exactly when the
  returned value is True; a call that returns False leaves the turn, the game status and
  the board, that is the whole game, as they were.
\<close>

theorem make_move_turn_flips_iff_success:
  assumes "make_move g point_A point_B = Inr (result, g')"
  shows "(turn g' \<noteq> turn g \<longleftrightarrow> result) \<and>
         (result \<longrightarrow> turn g' = (case turn g of White \<Rightarrow> Black | Black \<Rightarrow> White)) \<and>
         (\<not> result \<longrightarrow>
            turn g' = turn g \<and> game_state g' = game_state g \<and> board g' = board g \<and> g' = g)"
proof -
  from assms obtain g1 where body: "make_move_body g point_A point_B = Inr (result, g1)"
    and g': "g' = (if result
                   then g1\<lparr>turn := (case turn g1 of White \<Rightarrow> Black | Black \<Rightarrow> White)\<rparr>
                   else g1)"
    by (auto simp: make_move_def move_decorator_def ebind_Inr_iff split: if_splits)
  from make_move_body_cases[OF body] show ?thesis
  proof
    assume "\<not> result \<and> g1 = g"
    with g' show ?thesis by simp
  next
    assume r: "result \<and> game_state g = UNFINISHED \<and>
      check_move point_A point_B (turn g) (board g) = Inr True \<and>
      (\<exists>bd'. move_piece point_A point_B (board g) = Inr bd' \<and>
         g1 = check_king (g\<lparr>board := bd'\<rparr>))"
    then have "turn g1 = turn g" by (auto simp: check_king_turn)
    with r g' show ?thesis by (simp add: flip_turn)
  qed
qed

theorem make_move_turn_flips_iff_success_witness:
  "make_move new_game (py_str ''e2'') (py_str ''e4'') = Inr (True, after_e2e4) \<and>
   turn after_e2e4 \<noteq> turn new_game \<and>
   make_move new_game (py_str ''e2'') (py_str ''e5'') = Inr (False, new_game)"
  using make_move_turn_flips_iff_success[OF make_move_e2e4]
    make_move_turn_flips_iff_success[OF make_move_e2e5] make_move_e2e4 make_move_e2e5
  by blast

text \<open>
  Claim C7. Once the status is WHITE_WON or BLACK_WON, every call of make_move, whatever
  its two strings, returns False and leaves the board, the turn and the status unchanged.
\<close>

theorem make_move_rejected_when_finished:
  assumes "game_state g \<noteq> UNFINISHED"
  shows "make_move g point_A point_B = Inr (False, g)"
  using assms by (simp add: make_move_def move_decorator_def make_move_body_def)

theorem make_move_rejected_when_finished_witness:
  "game_state (new_game\<lparr>game_state := BLACK_WON\<rparr>) \<noteq> UNFINISHED \<and>
   make_move (new_game\<lparr>game_state := BLACK_WON\<rparr>) (py_str ''e2'') (py_str ''e4'') =
     Inr (False, new_game\<lparr>game_state := BLACK_WON\<rparr>)"
  using make_move_rejected_when_finished
    [of "new_game\<lparr>game_state := BLACK_WON\<rparr>" "py_str ''e2''" "py_str ''e4''"]
  by simp

subsection \<open>The King\<close>

lemma king_step_iff:
  "((rA = rB \<and> \<bar>cA - cB\<bar> = 1) \<or> (cA = cB \<and> \<bar>rA - rB\<bar> = 1) \<or>
      (\<bar>cA - cB\<bar> = 1 \<and> \<bar>rA - rB\<bar> = 1)) =
   (\<bar>rA - rB\<bar> \<le> 1 \<and> \<bar>cA - cB\<bar> \<le> 1 \<and> \<not> (rA = rB \<and> cA = cB))"
  for rA rB cA cB :: int
  by (cases "rA = rB"; cases "cA = cB"; simp) arith+

lemma King_get_movement_result:
  assumes "indices pa pb = Inr (rA, rB, cA, cB)" and "board_get bd rB cB = Inr s"
  shows "King_get_movement pa pb col bd =
           Inr (s = None \<and> \<bar>rA - rB\<bar> \<le> 1 \<and> \<bar>cA - cB\<bar> \<le> 1 \<and> \<not> (rA = rB \<and> cA = cB))"
proof -
  have "King_get_movement pa pb col bd =
      Inr (s = None \<and> ((rA = rB \<and> \<bar>cA - cB\<bar> = 1) \<or> (cA = cB \<and> \<bar>rA - rB\<bar> = 1) \<or>
      (\<bar>cA - cB\<bar> = 1 \<and> \<bar>rA - rB\<bar> = 1)))"
    using assms by (simp add: King_get_movement_def)
  then show ?thesis by (simp only: king_step_iff)
qed

text \<open>
  Claim C4. The King's rule returns True exactly when both strings are read as squares,
  the destination square is empty and the destination differs from the source by at most
  one rank and at most one file without being the source itself; on a board of the
  regular shape and well-formed squares the rule always returns a verdict; and a king
  move onto an occupied square, friendly or enemy, is answered with False.
\<close>

theorem King_moves_one_step_onto_empty:
  "(King_get_movement point_A point_B col bd = Inr True \<longleftrightarrow>
      (\<exists>row_A row_B column_A column_B.
         indices point_A point_B = Inr (row_A, row_B, column_A, column_B) \<and>
         board_get bd row_B column_B = Inr None \<and>
         \<bar>row_A - row_B\<bar> \<le> 1 \<and> \<bar>column_A - column_B\<bar> \<le> 1 \<and>
         \<not> (row_A = row_B \<and> column_A = column_B))) \<and>
   (wf_board bd \<and> well_formed point_A \<and> well_formed point_B \<longrightarrow>
      (\<exists>verdict. King_get_movement point_A point_B col bd = Inr verdict)) \<and>
   (indices point_A point_B = Inr (r_A, r_B, c_A, c_B) \<and>
      board_get bd r_B c_B = Inr (Some occupant) \<longrightarrow>
      King_get_movement point_A point_B col bd = Inr False)"
proof (intro conjI iffI impI)
  assume t: "King_get_movement point_A point_B col bd = Inr True"
  then obtain rA rB cA cB where i: "indices point_A point_B = Inr (rA, rB, cA, cB)"
    by (cases "indices point_A point_B") (auto simp: King_get_movement_def)
  with t obtain s where s: "board_get bd rB cB = Inr s"
    by (cases "board_get bd rB cB") (auto simp: King_get_movement_def)
  from King_get_movement_result[OF i s, of col] t i s
  show "\<exists>row_A row_B column_A column_B.
         indices point_A point_B = Inr (row_A, row_B, column_A, column_B) \<and>
         board_get bd row_B column_B = Inr None \<and>
         \<bar>row_A - row_B\<bar> \<le> 1 \<and> \<bar>column_A - column_B\<bar> \<le> 1 \<and>
         \<not> (row_A = row_B \<and> column_A = column_B)"
    by auto
next
  assume "\<exists>row_A row_B column_A column_B.
         indices point_A point_B = Inr (row_A, row_B, column_A, column_B) \<and>
         board_get bd row_B column_B = Inr None \<and>
         \<bar>row_A - row_B\<bar> \<le> 1 \<and> \<bar>column_A - column_B\<bar> \<le> 1 \<and>
         \<not> (row_A = row_B \<and> column_A = column_B)"
  then obtain rA rB cA cB where i: "indices point_A point_B = Inr (rA, rB, cA, cB)"
    and s: "board_get bd rB cB = Inr None"
    and g: "\<bar>rA - rB\<bar> \<le> 1 \<and> \<bar>cA - cB\<bar> \<le> 1 \<and> \<not> (rA = rB \<and> cA = cB)"
    by blast
  from King_get_movement_result[OF i s, of col] g
  show "King_get_movement point_A point_B col bd = Inr True" by simp
next
  assume "wf_board bd \<and> well_formed point_A \<and> well_formed point_B"
  then have wf: "wf_board bd" and a: "well_formed point_A" and b: "well_formed point_B"
    by simp_all
  from well_formed_indices[OF a b] obtain rA rB cA cB where
    i: "indices point_A point_B = Inr (rA, rB, cA, cB)" and inb: "in_bounds rB cB"
    by blast
  from board_get_in_bounds[OF wf inb] obtain s where s: "board_get bd rB cB = Inr s"
    by blast
  from King_get_movement_result[OF i s, of col]
  show "\<exists>verdict. King_get_movement point_A point_B col bd = Inr verdict" by blast
next
  assume "indices point_A point_B = Inr (r_A, r_B, c_A, c_B) \<and>
      board_get bd r_B c_B = Inr (Some occupant)"
  then have i: "indices point_A point_B = Inr (r_A, r_B, c_A, c_B)"
    and s: "board_get bd r_B c_B = Inr (Some occupant)"
    by simp_all
  from King_get_movement_result[OF i s, of col]
  show "King_get_movement point_A point_B col bd = Inr False" by simp
qed

lemma king_e1_facts:
  "indices (py_str ''e1'') (py_str ''e2'') = Inr (1, 2, 4, 4) \<and> board_get (board after_e2e4) 2 4 = Inr None \<and>
   wf_board (board after_e2e4) \<and> well_formed (py_str ''e1'') \<and> well_formed (py_str ''e2'') \<and>
   indices (py_str ''e1'') (py_str ''d1'') = Inr (1, 1, 4, 3) \<and>
   board_get (board after_e2e4) 1 3 = Inr (Some (Piece White Queen))"
  by code_simp

theorem King_moves_one_step_onto_empty_witness:
  "indices (py_str ''e1'') (py_str ''e2'') = Inr (1, 2, 4, 4) \<and> board_get (board after_e2e4) 2 4 = Inr None \<and>
   wf_board (board after_e2e4) \<and> well_formed (py_str ''e1'') \<and> well_formed (py_str ''e2'') \<and>
   King_get_movement (py_str ''e1'') (py_str ''e2'') White (board after_e2e4) = Inr True \<and>
   indices (py_str ''e1'') (py_str ''d1'') = Inr (1, 1, 4, 3) \<and>
   board_get (board after_e2e4) 1 3 = Inr (Some (Piece White Queen)) \<and>
   King_get_movement (py_str ''e1'') (py_str ''d1'') White (board after_e2e4) = Inr False"
proof -
  have "\<exists>row_A row_B column_A column_B.
         indices (py_str ''e1'') (py_str ''e2'') = Inr (row_A, row_B, column_A, column_B) \<and>
         board_get (board after_e2e4) row_B column_B = Inr None \<and>
         \<bar>row_A - row_B\<bar> \<le> 1 \<and> \<bar>column_A - column_B\<bar> \<le> 1 \<and>
         \<not> (row_A = row_B \<and> column_A = column_B)"
    using king_e1_facts by (intro exI[of _ 1] exI[of _ 2] exI[of _ 4]) simp
  with King_moves_one_step_onto_empty[of "py_str ''e1''" "py_str ''e2''" White "board after_e2e4"]
  have t: "King_get_movement (py_str ''e1'') (py_str ''e2'') White (board after_e2e4) = Inr True"
    by blast
  from King_moves_one_step_onto_empty
    [of "py_str ''e1''" "py_str ''d1''" White "board after_e2e4" 1 1 4 3 "Piece White Queen"] king_e1_facts
  have "King_get_movement (py_str ''e1'') (py_str ''d1'') White (board after_e2e4) = Inr False"
    by blast
  with t king_e1_facts show ?thesis by blast
qed

subsection \<open>ChessBoard.check_king\<close>

lemma get_piece_wK: "get_piece p = ''wK'' \<longleftrightarrow> p = Piece White King"
  by (cases p; cases "get_color p"; cases "get_kind p") (simp_all add: get_piece_def)

lemma get_piece_bK: "get_piece p = ''bK'' \<longleftrightarrow> p = Piece Black King"
  by (cases p; cases "get_color p"; cases "get_kind p") (simp_all add: get_piece_def)

lemma get_type_P: "get_type p = ''P'' \<longleftrightarrow> get_kind p = Pawn"
  by (cases "get_kind p") (simp_all add: get_type_def)

lemma scan_kings_set:
  "scan_kings ss (w, b) =
     (w \<or> Some (Piece White King) \<in> set ss, b \<or> Some (Piece Black King) \<in> set ss)"
proof (induction ss arbitrary: w b)
  case Nil
  show ?case by simp
next
  case (Cons s ss)
  show ?case
  proof (cases s)
    case None
    then show ?thesis by (simp add: Cons.IH)
  next
    case (Some p)
    then show ?thesis by (auto simp: Cons.IH get_piece_wK get_piece_bK)
  qed
qed

lemma all_squares_iff: "(r, c) \<in> set all_squares \<longleftrightarrow> in_bounds r c"
  by (force simp: all_squares_def in_bounds_def)

lemma has_king_iff:
  "has_king bd col \<longleftrightarrow>
     (\<exists>r c. in_bounds r c \<and> board_get bd r c = Inr (Some (Piece col King)))"
proof -
  have "has_king bd col \<longleftrightarrow>
      (\<exists>x\<in>set all_squares. board_get bd (fst x) (snd x) = Inr (Some (Piece col King)))"
    by (simp add: has_king_def list_ex_iff case_prod_beta)
  also have "\<dots> \<longleftrightarrow> (\<exists>r c. in_bounds r c \<and> board_get bd r c = Inr (Some (Piece col King)))"
    using all_squares_iff by (metis prod.collapse fst_conv snd_conv)
  finally show ?thesis .
qed

lemma board_get_mem:
  assumes "board_get bd r c = Inr s"
  shows "s \<in> set (concat (map snd bd))"
proof -
  from assms obtain squares where m: "map_of bd r = Some squares"
    and l: "list_get squares c = Inr s"
    by (auto simp: board_get_def split: option.splits)
  from l have "s \<in> set squares"
    by (auto simp: list_get_def Let_def split: if_splits)
  moreover from m have "squares \<in> snd ` set bd"
    by (metis map_of_SomeD image_eqI snd_conv)
  ultimately show ?thesis by auto
qed

lemma mem_board_get:
  assumes "wf_board bd" and "s \<in> set (concat (map snd bd))"
  shows "\<exists>r c. in_bounds r c \<and> board_get bd r c = Inr s"
proof -
  from assms(2) obtain k squares where ks: "(k, squares) \<in> set bd" and s: "s \<in> set squares"
    by auto
  have d: "distinct (map fst bd)"
    using assms(1) by (simp add: wf_board_def)
  from ks d have m: "map_of bd k = Some squares" by simp
  have "k \<in> set (map fst bd)" using ks by force
  then have k: "1 \<le> k \<and> k \<le> 8"
    using assms(1) by (auto simp: wf_board_def)
  from wf_board_row[OF assms(1), of k] k m have len: "length squares = 8" by auto
  from s obtain i where i: "i < length squares" "squares ! i = s"
    by (auto simp: in_set_conv_nth)
  have "board_get bd k (int i) = Inr s"
    using m i len by (simp add: board_get_def list_get_def)
  moreover have "in_bounds k (int i)"
    using k i len by (simp add: in_bounds_def)
  ultimately show ?thesis by blast
qed

lemma scan_kings_has_king:
  assumes "wf_board bd"
  shows "scan_kings (concat (map snd bd)) (False, False) = (has_king bd White, has_king bd Black)"
  using mem_board_get[OF assms] board_get_mem[of bd]
  by (simp only: scan_kings_set has_king_iff simp_thms prod.inject) blast

lemma check_king_state:
  assumes "wf_board (board g)"
  shows "game_state (check_king g) =
           (if has_king (board g) Black \<and> \<not> has_king (board g) White then BLACK_WON
            else if has_king (board g) White \<and> \<not> has_king (board g) Black then WHITE_WON
            else game_state g)"
  by (auto simp: check_king_def scan_kings_has_king[OF assms])

lemma play_knight_takes_e7:
  "play new_game knight_takes_e7 =
     Inr (replicate 5 True, \<lparr>board = black_king_gone, game_state = WHITE_WON, turn = Black\<rparr>)"
  by code_simp

text \<open>
  Claim C8. On a board of the regular shape check_king looks at all 64 squares: the status
  becomes BLACK_WON when no white king and a black king is found, WHITE_WON when no black
  king and a white king is found, and is left as it was otherwise; from the status
  UNFINISHED, the only one check_king is called in, each outcome occurs exactly then, and
  with both kings present the status stays UNFINISHED.
\<close>

theorem check_king_declares_winner:
  assumes "wf_board (board g)"
  shows "game_state (check_king g) =
           (if \<not> has_king (board g) White \<and> has_king (board g) Black then BLACK_WON
            else if \<not> has_king (board g) Black \<and> has_king (board g) White then WHITE_WON
            else game_state g) \<and>
         (game_state g = UNFINISHED \<longrightarrow>
            (game_state (check_king g) = BLACK_WON \<longleftrightarrow>
               \<not> has_king (board g) White \<and> has_king (board g) Black) \<and>
            (game_state (check_king g) = WHITE_WON \<longleftrightarrow>
               \<not> has_king (board g) Black \<and> has_king (board g) White) \<and>
            (has_king (board g) White \<and> has_king (board g) Black \<longrightarrow>
               game_state (check_king g) = UNFINISHED)) \<and>
         board (check_king g) = board g \<and> turn (check_king g) = turn g"
  using check_king_state[OF assms] by (auto simp: check_king_board check_king_turn)

lemma black_king_gone_facts:
  "wf_board black_king_gone \<and> \<not> has_king black_king_gone Black \<and>
   has_king black_king_gone White \<and> length all_squares = 64"
  by code_simp

theorem check_king_declares_winner_witness:
  "wf_board (board \<lparr>board = black_king_gone, game_state = UNFINISHED, turn = White\<rparr>) \<and>
   \<not> has_king black_king_gone Black \<and> has_king black_king_gone White \<and>
   game_state (check_king \<lparr>board = black_king_gone, game_state = UNFINISHED, turn = White\<rparr>) =
     WHITE_WON"
  using check_king_declares_winner
    [of "\<lparr>board = black_king_gone, game_state = UNFINISHED, turn = White\<rparr>"]
    black_king_gone_facts
  by simp

subsection \<open>ChessBoard.move_piece\<close>

lemma board_get_cell:
  assumes "wf_board bd" and "in_bounds r c"
  shows "board_get bd r c = Inr (cell bd r c)"
  using board_get_in_bounds[OF assms] by (auto simp: cell_def)

lemma board_set_cell:
  assumes "wf_board bd" and "in_bounds r c"
  shows "\<exists>bd'. board_set bd r c v = Inr bd' \<and> wf_board bd' \<and>
           (\<forall>r' c'. in_bounds r' c' \<longrightarrow>
              cell bd' r' c' = (if r' = r \<and> c' = c then v else cell bd r' c'))"
proof -
  from board_set_in_bounds[OF assms, of v] obtain bd' where
    b: "board_set bd r c v = Inr bd'" "wf_board bd'"
      "\<forall>r' c'. in_bounds r' c' \<longrightarrow>
         board_get bd' r' c' = (if r' = r \<and> c' = c then Inr v else board_get bd r' c')"
    by blast
  have "cell bd' r' c' = (if r' = r \<and> c' = c then v else cell bd r' c')"
    if "in_bounds r' c'" for r' c'
    using b(3) that by (simp add: cell_def)
  with b(1,2) show ?thesis by blast
qed

lemma survivor_idem: "survivor (survivor s) = survivor s"
  by (simp add: survivor_def split: option.splits)

lemma explode_square_cell:
  assumes "wf_board bd"
  shows "\<exists>bd'. explode_square bd row column = Inr bd' \<and> wf_board bd' \<and>
           (\<forall>r c. in_bounds r c \<longrightarrow>
              cell bd' r c = (if r = row \<and> c = column then survivor (cell bd r c) else cell bd r c))"
proof (cases "in_bounds row column")
  case False
  then have "explode_square bd row column = Inr bd"
    by (auto simp: explode_square_def in_bounds_def)
  moreover have "\<forall>r c. in_bounds r c \<longrightarrow> \<not> (r = row \<and> c = column)"
    using False by auto
  ultimately show ?thesis using assms by auto
next
  case True
  then have nb: "\<not> (row < 1 \<or> row > 8 \<or> column < 0 \<or> column > 7)"
    by (auto simp: in_bounds_def)
  note g = board_get_cell[OF assms True]
  show ?thesis
  proof (cases "cell bd row column")
    case None
    then have "explode_square bd row column = Inr bd"
      using nb g by (simp add: explode_square_def)
    moreover have "survivor (cell bd row column) = cell bd row column"
      using None by (simp add: survivor_def)
    ultimately show ?thesis using assms by auto
  next
    case (Some p)
    show ?thesis
    proof (cases "get_kind p = Pawn")
      case True
      then have "explode_square bd row column = Inr bd"
        using nb g Some by (simp add: explode_square_def get_type_P)
      moreover have "survivor (cell bd row column) = cell bd row column"
        using Some True by (simp add: survivor_def)
      ultimately show ?thesis using assms by auto
    next
      case False
      then have e: "explode_square bd row column = board_set bd row column None"
        using nb g Some by (simp add: explode_square_def get_type_P)
      have s: "survivor (cell bd row column) = None"
        using Some False by (simp add: survivor_def)
      from board_set_cell[OF assms \<open>in_bounds row column\<close>, of None] e s
      show ?thesis by auto
    qed
  qed
qed

lemma explode_columns_cell:
  assumes "wf_board bd"
  shows "\<exists>bd'. explode_columns bd row cs = Inr bd' \<and> wf_board bd' \<and>
           (\<forall>r c. in_bounds r c \<longrightarrow>
              cell bd' r c = (if r = row \<and> c \<in> set cs then survivor (cell bd r c) else cell bd r c))"
  using assms
proof (induction cs arbitrary: bd)
  case Nil
  then show ?case by simp
next
  case (Cons column cs)
  from explode_square_cell[OF Cons.prems, of row column] obtain bd1 where
    b1: "explode_square bd row column = Inr bd1" "wf_board bd1"
      "\<forall>r c. in_bounds r c \<longrightarrow>
         cell bd1 r c = (if r = row \<and> c = column then survivor (cell bd r c) else cell bd r c)"
    by blast
  from Cons.IH[OF b1(2)] obtain bd' where
    b': "explode_columns bd1 row cs = Inr bd'" "wf_board bd'"
      "\<forall>r c. in_bounds r c \<longrightarrow>
         cell bd' r c = (if r = row \<and> c \<in> set cs then survivor (cell bd1 r c) else cell bd1 r c)"
    by blast
  have "explode_columns bd row (column # cs) = Inr bd'"
    using b1(1) b'(1) by simp
  moreover have "cell bd' r c =
      (if r = row \<and> c \<in> set (column # cs) then survivor (cell bd r c) else cell bd r c)"
    if "in_bounds r c" for r c
    using b1(3)[rule_format, OF that] b'(3)[rule_format, OF that]
    by (auto simp: survivor_idem)
  ultimately show ?case using b'(2) by blast
qed

lemma explode_rows_cell:
  assumes "wf_board bd"
  shows "\<exists>bd'. explode_rows bd rs cs = Inr bd' \<and> wf_board bd' \<and>
           (\<forall>r c. in_bounds r c \<longrightarrow>
              cell bd' r c =
                (if r \<in> set rs \<and> c \<in> set cs then survivor (cell bd r c) else cell bd r c))"
  using assms
proof (induction rs arbitrary: bd)
  case Nil
  then show ?case by simp
next
  case (Cons row rs)
  from explode_columns_cell[OF Cons.prems, of row cs] obtain bd1 where
    b1: "explode_columns bd row cs = Inr bd1" "wf_board bd1"
      "\<forall>r c. in_bounds r c \<longrightarrow>
         cell bd1 r c = (if r = row \<and> c \<in> set cs then survivor (cell bd r c) else cell bd r c)"
    by blast
  from Cons.IH[OF b1(2)] obtain bd' where
    b': "explode_rows bd1 rs cs = Inr bd'" "wf_board bd'"
      "\<forall>r c. in_bounds r c \<longrightarrow>
         cell bd' r c =
           (if r \<in> set rs \<and> c \<in> set cs then survivor (cell bd1 r c) else cell bd1 r c)"
    by blast
  have "explode_rows bd (row # rs) cs = Inr bd'"
    using b1(1) b'(1) by simp
  moreover have "cell bd' r c =
      (if r \<in> set (row # rs) \<and> c \<in> set cs then survivor (cell bd r c) else cell bd r c)"
    if "in_bounds r c" for r c
    using b1(3)[rule_format, OF that] b'(3)[rule_format, OF that]
    by (auto simp: survivor_idem)
  ultimately show ?case using b'(2) by blast
qed

lemma blast_range: "(r \<in> set [rB - 1 .. rB + 1] \<and> c \<in> set [cB - 1 .. cB + 1]) = in_blast rB cB r c"
  by (auto simp: in_blast_def)

lemma play_knight_to_d5:
  "play new_game (butlast knight_takes_e7) =
     Inr (replicate 4 True, \<lparr>board = knight_on_d5, game_state = UNFINISHED, turn = White\<rparr>)"
  by code_simp

lemma move_piece_capture_cell:
  assumes wf: "wf_board bd" and i: "indices pa pb = Inr (rA, rB, cA, cB)"
    and a: "in_bounds rA cA" and b: "in_bounds rB cB" and occ: "cell bd rB cB \<noteq> None"
  shows "\<exists>bd'. move_piece pa pb bd = Inr bd' \<and> wf_board bd' \<and>
           (\<forall>r c. in_bounds r c \<longrightarrow>
              cell bd' r c =
                (if (r = rA \<and> c = cA) \<or> (r = rB \<and> c = cB) then None
                 else if in_blast rB cB r c then survivor (cell bd r c) else cell bd r c))"
proof -
  from board_set_cell[OF wf a, of None] obtain bd1 where
    b1: "board_set bd rA cA None = Inr bd1" "wf_board bd1"
      "\<forall>r c. in_bounds r c \<longrightarrow> cell bd1 r c = (if r = rA \<and> c = cA then None else cell bd r c)"
    by blast
  from board_set_cell[OF b1(2) b, of None] obtain bd2 where
    b2: "board_set bd1 rB cB None = Inr bd2" "wf_board bd2"
      "\<forall>r c. in_bounds r c \<longrightarrow> cell bd2 r c = (if r = rB \<and> c = cB then None else cell bd1 r c)"
    by blast
  from explode_rows_cell[OF b2(2), of "[rB - 1 .. rB + 1]" "[cB - 1 .. cB + 1]"] obtain bd' where
    b': "explode_rows bd2 [rB - 1 .. rB + 1] [cB - 1 .. cB + 1] = Inr bd'" "wf_board bd'"
      "\<forall>r c. in_bounds r c \<longrightarrow>
         cell bd' r c = (if in_blast rB cB r c then survivor (cell bd2 r c) else cell bd2 r c)"
    by (auto simp only: blast_range)
  have "move_piece pa pb bd = Inr bd'"
    using i occ board_get_cell[OF wf b] b1(1) b2(1) b'(1) by (auto simp: move_piece_def)
  moreover have "cell bd' r c =
      (if (r = rA \<and> c = cA) \<or> (r = rB \<and> c = cB) then None
       else if in_blast rB cB r c then survivor (cell bd r c) else cell bd r c)"
    if "in_bounds r c" for r c
    using b1(3)[rule_format, OF that] b2(3)[rule_format, OF that] b'(3)[rule_format, OF that]
    by (auto simp: survivor_def)
  ultimately show ?thesis using b'(2) by blast
qed

lemma move_piece_plain_cell:
  assumes wf: "wf_board bd" and i: "indices pa pb = Inr (rA, rB, cA, cB)"
    and a: "in_bounds rA cA" and b: "in_bounds rB cB" and emp: "cell bd rB cB = None"
  shows "\<exists>bd'. move_piece pa pb bd = Inr bd' \<and> wf_board bd' \<and>
           (\<forall>r c. in_bounds r c \<longrightarrow>
              cell bd' r c =
                (if r = rA \<and> c = cA then None
                 else if r = rB \<and> c = cB then cell bd rA cA else cell bd r c))"
proof -
  from board_set_cell[OF wf b, of "cell bd rA cA"] obtain bd1 where
    b1: "board_set bd rB cB (cell bd rA cA) = Inr bd1" "wf_board bd1"
      "\<forall>r c. in_bounds r c \<longrightarrow>
         cell bd1 r c = (if r = rB \<and> c = cB then cell bd rA cA else cell bd r c)"
    by blast
  from board_set_cell[OF b1(2) a, of None] obtain bd' where
    b': "board_set bd1 rA cA None = Inr bd'" "wf_board bd'"
      "\<forall>r c. in_bounds r c \<longrightarrow> cell bd' r c = (if r = rA \<and> c = cA then None else cell bd1 r c)"
    by blast
  have "move_piece pa pb bd = Inr bd'"
    using i emp board_get_cell[OF wf b] board_get_cell[OF wf a] b1(1) b'(1)
    by (simp add: move_piece_def)
  moreover have "cell bd' r c =
      (if r = rA \<and> c = cA then None
       else if r = rB \<and> c = cB then cell bd rA cA else cell bd r c)"
    if "in_bounds r c" for r c
    using b1(3)[rule_format, OF that] b'(3)[rule_format, OF that] by auto
  ultimately show ?thesis using b'(2) by blast
qed

text \<open>
  Claim C5. On a board of the regular shape, move_piece called with well-formed squares and
  an occupied destination returns a board of the same shape on which the source square and
  the destination square are empty, no in-bounds square of the 3x3 block around the
  destination holds a piece other than a pawn, every pawn of that block that stood neither
  on the source nor on the destination is where it was, and every square outside the block
  other than the source is unchanged.
\<close>

theorem capture_explodes_non_pawns:
  assumes wf: "wf_board bd"
    and pa: "well_formed point_A" and pb: "well_formed point_B"
    and i: "indices point_A point_B = Inr (row_A, row_B, column_A, column_B)"
    and occ: "board_get bd row_B column_B = Inr (Some target)"
  shows "\<exists>bd'. move_piece point_A point_B bd = Inr bd' \<and> wf_board bd' \<and>
           board_get bd' row_A column_A = Inr None \<and>
           board_get bd' row_B column_B = Inr None \<and>
           (\<forall>r c. in_bounds r c \<and> in_blast row_B column_B r c \<longrightarrow>
              (\<exists>s. board_get bd' r c = Inr s \<and> (\<forall>p. s = Some p \<longrightarrow> get_kind p = Pawn))) \<and>
           (\<forall>r c p. in_bounds r c \<and> in_blast row_B column_B r c \<and>
                (r, c) \<noteq> (row_A, column_A) \<and> (r, c) \<noteq> (row_B, column_B) \<and>
                board_get bd r c = Inr (Some p) \<and> get_kind p = Pawn \<longrightarrow>
              board_get bd' r c = Inr (Some p)) \<and>
           (\<forall>r c. in_bounds r c \<and> \<not> in_blast row_B column_B r c \<and>
                (r, c) \<noteq> (row_A, column_A) \<longrightarrow>
              board_get bd' r c = board_get bd r c)"
proof -
  from indices_bounds[OF i] pa pb have a: "in_bounds row_A column_A" and b: "in_bounds row_B column_B"
    by (simp_all add: in_bounds_def)
  from occ have occ': "cell bd row_B column_B \<noteq> None"
    by (simp add: cell_def)
  from move_piece_capture_cell[OF wf i a b occ'] obtain bd' where
    m: "move_piece point_A point_B bd = Inr bd'" and wf': "wf_board bd'"
    and c: "\<And>r c. in_bounds r c \<Longrightarrow>
              cell bd' r c =
                (if (r = row_A \<and> c = column_A) \<or> (r = row_B \<and> c = column_B) then None
                 else if in_blast row_B column_B r c then survivor (cell bd r c)
                 else cell bd r c)"
    by blast
  have g: "board_get bd r c = Inr (cell bd r c)" if "in_bounds r c" for r c
    using board_get_cell[OF wf that] .
  have g': "board_get bd' r c = Inr (cell bd' r c)" if "in_bounds r c" for r c
    using board_get_cell[OF wf' that] .
  have 1: "board_get bd' row_A column_A = Inr None"
    using g'[OF a] c[OF a] by simp
  have 2: "board_get bd' row_B column_B = Inr None"
    using g'[OF b] c[OF b] by simp
  have 3: "\<exists>s. board_get bd' r c = Inr s \<and> (\<forall>p. s = Some p \<longrightarrow> get_kind p = Pawn)"
    if "in_bounds r c \<and> in_blast row_B column_B r c" for r c
  proof -
    from that have inb: "in_bounds r c" and bl: "in_blast row_B column_B r c" by simp_all
    have "\<forall>p. cell bd' r c = Some p \<longrightarrow> get_kind p = Pawn"
      using c[OF inb] bl by (auto simp: survivor_def split: option.splits if_splits)
    with g'[OF inb] show ?thesis by blast
  qed
  have 4: "board_get bd' r c = Inr (Some p)"
    if "in_bounds r c \<and> in_blast row_B column_B r c \<and>
        (r, c) \<noteq> (row_A, column_A) \<and> (r, c) \<noteq> (row_B, column_B) \<and>
        board_get bd r c = Inr (Some p) \<and> get_kind p = Pawn" for r c p
  proof -
    from that have inb: "in_bounds r c" by simp
    from that g[OF inb] have "cell bd r c = Some p" by simp
    with that c[OF inb] have "cell bd' r c = Some p"
      by (auto simp: survivor_def)
    with g'[OF inb] show ?thesis by simp
  qed
  have 5: "board_get bd' r c = board_get bd r c"
    if "in_bounds r c \<and> \<not> in_blast row_B column_B r c \<and> (r, c) \<noteq> (row_A, column_A)" for r c
  proof -
    from that have inb: "in_bounds r c" by simp
    have "(r, c) \<noteq> (row_B, column_B)"
      using that by (auto simp: in_blast_def)
    with that c[OF inb] have "cell bd' r c = cell bd r c" by auto
    with g[OF inb] g'[OF inb] show ?thesis by simp
  qed
  from m wf' 1 2 3 4 5 show ?thesis by blast
qed

lemma knight_capture_facts:
  "wf_board knight_on_d5 \<and> well_formed (py_str ''d5'') \<and> well_formed (py_str ''e7'') \<and>
   indices (py_str ''d5'') (py_str ''e7'') = Inr (5, 7, 3, 4) \<and>
   board_get knight_on_d5 7 4 = Inr (Some (Piece Black Pawn)) \<and>
   board_get knight_on_d5 8 4 = Inr (Some (Piece Black King)) \<and>
   board_get knight_on_d5 7 3 = Inr (Some (Piece Black Pawn)) \<and>
   in_bounds 7 3 \<and> in_blast 7 4 7 3 \<and> in_bounds 8 4 \<and> in_blast 7 4 8 4 \<and>
   move_piece (py_str ''d5'') (py_str ''e7'') knight_on_d5 = Inr black_king_gone"
  by code_simp

theorem capture_explodes_non_pawns_witness:
  "wf_board knight_on_d5 \<and> well_formed (py_str ''d5'') \<and> well_formed (py_str ''e7'') \<and>
   indices (py_str ''d5'') (py_str ''e7'') = Inr (5, 7, 3, 4) \<and>
   board_get knight_on_d5 7 4 = Inr (Some (Piece Black Pawn)) \<and>
   move_piece (py_str ''d5'') (py_str ''e7'') knight_on_d5 = Inr black_king_gone \<and>
   board_get black_king_gone 5 3 = Inr None \<and>
   board_get black_king_gone 7 4 = Inr None \<and>
   board_get black_king_gone 7 3 = Inr (Some (Piece Black Pawn))"
proof -
  note f = knight_capture_facts
  from f have wf: "wf_board knight_on_d5" and a: "well_formed (py_str ''d5'')" and b: "well_formed (py_str ''e7'')"
    and i: "indices (py_str ''d5'') (py_str ''e7'') = Inr (5, 7, 3, 4)"
    and occ: "board_get knight_on_d5 7 4 = Inr (Some (Piece Black Pawn))"
    and m: "move_piece (py_str ''d5'') (py_str ''e7'') knight_on_d5 = Inr black_king_gone"
    by simp_all
  from capture_explodes_non_pawns[OF wf a b i occ] m
  have "board_get black_king_gone 5 3 = Inr None"
    and "board_get black_king_gone 7 4 = Inr None"
    and p: "\<forall>r c p. in_bounds r c \<and> in_blast 7 4 r c \<and> (r, c) \<noteq> (5, 3) \<and> (r, c) \<noteq> (7, 4) \<and>
                board_get knight_on_d5 r c = Inr (Some p) \<and> get_kind p = Pawn \<longrightarrow>
              board_get black_king_gone r c = Inr (Some p)"
    by auto
  moreover from p f have "board_get black_king_gone 7 3 = Inr (Some (Piece Black Pawn))"
    by simp
  ultimately show ?thesis using f by simp
qed

subsection \<open>A board without kings\<close>

lemma check_move_True_D:
  assumes "check_move pa pb col bd = Inr True"
  shows "\<exists>rA rB cA cB pA sB. indices pa pb = Inr (rA, rB, cA, cB) \<and>
           board_get bd rA cA = Inr (Some pA) \<and> board_get bd rB cB = Inr sB"
proof -
  from assms obtain rA rB cA cB where i: "indices pa pb = Inr (rA, rB, cA, cB)"
    by (cases "indices pa pb") (auto simp: check_move_def)
  with assms obtain sA where a: "board_get bd rA cA = Inr sA"
    by (cases "board_get bd rA cA") (auto simp: check_move_def)
  with assms i obtain sB where b: "board_get bd rB cB = Inr sB"
    by (cases "board_get bd rB cB") (auto simp: check_move_def)
  from assms i a b obtain pA where "sA = Some pA"
    by (cases sA) (auto simp: check_move_def)
  with i a b show ?thesis by blast
qed

lemma has_king_cell:
  assumes "wf_board bd"
  shows "has_king bd col \<longleftrightarrow> (\<exists>r c. in_bounds r c \<and> cell bd r c = Some (Piece col King))"
proof -
  have "(board_get bd r c = Inr (Some (Piece col King))) = (cell bd r c = Some (Piece col King))"
    if "in_bounds r c" for r c
    using board_get_cell[OF assms that] by simp
  then show ?thesis
    unfolding has_king_iff by blast
qed

lemma move_piece_after_check:
  assumes wf: "wf_board bd" and ok: "check_move pa pb col bd = Inr True"
  shows "\<exists>bd'. move_piece pa pb bd = Inr bd' \<and> wf_board bd' \<and>
           (\<forall>k. has_king bd' k \<longrightarrow> has_king bd k)"
proof -
  from check_move_True_D[OF ok] obtain rA rB cA cB pA sB where
    i: "indices pa pb = Inr (rA, rB, cA, cB)"
    and ga: "board_get bd rA cA = Inr (Some pA)" and gb: "board_get bd rB cB = Inr sB"
    by blast
  from indices_bounds[OF i] board_get_Inr_row[OF wf ga] board_get_Inr_row[OF wf gb]
  have a: "in_bounds rA cA" and b: "in_bounds rB cB"
    by (simp_all add: in_bounds_def)
  show ?thesis
  proof (cases "cell bd rB cB")
    case None
    from move_piece_plain_cell[OF wf i a b None] obtain bd' where
      m: "move_piece pa pb bd = Inr bd'" and wf': "wf_board bd'"
      and c: "\<And>r c. in_bounds r c \<Longrightarrow>
                cell bd' r c =
                  (if r = rA \<and> c = cA then None
                   else if r = rB \<and> c = cB then cell bd rA cA else cell bd r c)"
      by blast
    have "has_king bd k" if "has_king bd' k" for k
    proof -
      from that obtain r c where inb: "in_bounds r c" and k: "cell bd' r c = Some (Piece k King)"
        using has_king_cell[OF wf'] by blast
      from c[OF inb] k have "cell bd rA cA = Some (Piece k King) \<or> cell bd r c = Some (Piece k King)"
        by (auto split: if_splits)
      with a inb show ?thesis using has_king_cell[OF wf] by blast
    qed
    with m wf' show ?thesis by blast
  next
    case (Some q)
    then have occ: "cell bd rB cB \<noteq> None" by simp
    from move_piece_capture_cell[OF wf i a b occ] obtain bd' where
      m: "move_piece pa pb bd = Inr bd'" and wf': "wf_board bd'"
      and c: "\<And>r c. in_bounds r c \<Longrightarrow>
                cell bd' r c =
                  (if (r = rA \<and> c = cA) \<or> (r = rB \<and> c = cB) then None
                   else if in_blast rB cB r c then survivor (cell bd r c) else cell bd r c)"
      by blast
    have "has_king bd k" if "has_king bd' k" for k
    proof -
      from that obtain r c where inb: "in_bounds r c" and k: "cell bd' r c = Some (Piece k King)"
        using has_king_cell[OF wf'] by blast
      from c[OF inb] k have "cell bd r c = Some (Piece k King)"
        by (auto simp: survivor_def split: if_splits option.splits)
      with inb show ?thesis using has_king_cell[OF wf] by blast
    qed
    with m wf' show ?thesis by blast
  qed
qed

lemma make_move_True_D:
  assumes wf: "wf_board (board g)" and mv: "make_move g pa pb = Inr (True, g')"
  shows "game_state g = UNFINISHED \<and> wf_board (board g') \<and>
         (\<forall>k. has_king (board g') k \<longrightarrow> has_king (board g) k) \<and>
         game_state g' = game_state (check_king (g\<lparr>board := board g'\<rparr>))"
proof -
  from mv obtain g1 where body: "make_move_body g pa pb = Inr (True, g1)"
    and g': "g' = g1\<lparr>turn := (case turn g1 of White \<Rightarrow> Black | Black \<Rightarrow> White)\<rparr>"
    by (auto simp: make_move_def move_decorator_def ebind_Inr_iff split: if_splits)
  from make_move_body_cases[OF body] obtain bd' where
    u: "game_state g = UNFINISHED" and ok: "check_move pa pb (turn g) (board g) = Inr True"
    and m: "move_piece pa pb (board g) = Inr bd'" and g1: "g1 = check_king (g\<lparr>board := bd'\<rparr>)"
    by blast
  from move_piece_after_check[OF wf ok] m have wf': "wf_board bd'"
    and k: "\<forall>k. has_king bd' k \<longrightarrow> has_king (board g) k"
    by auto
  have b: "board g' = bd'"
    using g' g1 by (simp add: check_king_board)
  have "game_state g' = game_state (check_king (g\<lparr>board := bd'\<rparr>))"
    using g' g1 by simp
  with u wf' k b show ?thesis by simp
qed

lemma make_move_False_D:
  assumes "make_move g pa pb = Inr (False, g')"
  shows "g' = g"
proof -
  from assms have "make_move_body g pa pb = Inr (False, g')"
    by (auto simp: make_move_def move_decorator_def ebind_Inr_iff split: if_splits)
  from make_move_body_cases[OF this] show ?thesis by simp
qed

lemma make_move_kingless:
  assumes wf: "wf_board (board g)" and mv: "make_move g pa pb = Inr (result, g')"
    and u: "game_state g = UNFINISHED"
    and nk: "\<not> has_king (board g) White \<and> \<not> has_king (board g) Black"
  shows "wf_board (board g') \<and> game_state g' = UNFINISHED \<and>
         \<not> has_king (board g') White \<and> \<not> has_king (board g') Black"
proof (cases result)
  case False
  with mv have "g' = g" using make_move_False_D by simp
  with wf u nk show ?thesis by simp
next
  case True
  with mv have mv': "make_move g pa pb = Inr (True, g')" by simp
  from make_move_True_D[OF wf mv'] have wf': "wf_board (board g')"
    and k: "\<forall>k. has_king (board g') k \<longrightarrow> has_king (board g) k"
    and s: "game_state g' = game_state (check_king (g\<lparr>board := board g'\<rparr>))"
    by simp_all
  from k nk have nk': "\<not> has_king (board g') White \<and> \<not> has_king (board g') Black"
    by blast
  have "game_state (check_king (g\<lparr>board := board g'\<rparr>)) = game_state g"
    using check_king_state[of "g\<lparr>board := board g'\<rparr>"] wf' nk' by simp
  with s u wf' nk' show ?thesis by simp
qed

lemma play_kingless:
  assumes "wf_board (board g)" and "game_state g = UNFINISHED"
    and "\<not> has_king (board g) White \<and> \<not> has_king (board g) Black"
    and "play g ms = Inr (results, g')"
  shows "game_state g' = UNFINISHED \<and> \<not> has_king (board g') White \<and> \<not> has_king (board g') Black"
  using assms
proof (induction ms arbitrary: g results)
  case Nil
  then show ?case by simp
next
  case (Cons m ms)
  obtain pa pb where m: "m = (pa, pb)" by (cases m)
  from Cons.prems(4) m obtain result g1 rs where
    mv: "make_move g pa pb = Inr (result, g1)" and rest: "play g1 ms = Inr (rs, g')"
    by (auto split: sum.splits prod.splits)
  from make_move_kingless[OF Cons.prems(1) mv Cons.prems(2,3)]
  have "wf_board (board g1)" "game_state g1 = UNFINISHED"
    "\<not> has_king (board g1) White \<and> \<not> has_king (board g1) Black"
    by simp_all
  from Cons.IH[OF this rest] show ?case .
qed

lemma play_to_kings_by_e5:
  "play new_game (butlast both_kings_blast) = Inr (replicate 10 True, kings_by_e5)"
  by code_simp

lemma make_move_d4e5: "make_move kings_by_e5 (py_str ''d4'') (py_str ''e5'') = Inr (True, kingless)"
  by code_simp

lemma kingless_facts:
  "wf_board (board kings_by_e5) \<and> wf_board (board kingless) \<and>
   \<not> has_king (board kingless) White \<and> \<not> has_king (board kingless) Black \<and>
   game_state kingless = UNFINISHED"
  by code_simp

lemma play_on_kingless:
  "play kingless [((py_str ''a5''), (py_str ''a4'')), ((py_str ''e4''), (py_str ''e5''))] =
     Inr ([True, True],
          kingless\<lparr>board :=
            [(8, [Some (Piece Black Rook), Some (Piece Black Knight), Some (Piece Black Bishop),
                  Some (Piece Black Queen), None, Some (Piece Black Bishop),
                  Some (Piece Black Knight), Some (Piece Black Rook)]),
             (7, [None, Some (Piece Black Pawn), Some (Piece Black Pawn),
                  Some (Piece Black Pawn), None, Some (Piece Black Pawn),
                  Some (Piece Black Pawn), Some (Piece Black Pawn)]),
             (6, replicate 8 None),
             (5, [None, None, None, None, Some (Piece White Pawn), None, None, None]),
             (4, [Some (Piece Black Pawn), None, None, None, None, None, None, None]),
             (3, replicate 8 None),
             (2, [Some (Piece White Pawn), Some (Piece White Pawn), Some (Piece White Pawn),
                  None, None, Some (Piece White Pawn), Some (Piece White Pawn),
                  Some (Piece White Pawn)]),
             (1, [Some (Piece White Rook), Some (Piece White Knight),
                  Some (Piece White Bishop), Some (Piece White Queen), None,
                  Some (Piece White Bishop), Some (Piece White Knight),
                  Some (Piece White Rook)])]\<rparr>)"
  by code_simp

text \<open>
  Claim C10. On a board of the regular shape without a white and without a black king
  check_king leaves the status as it was; a successful make_move after which neither king
  is left ends with the status UNFINISHED; and from a kingless board with the status
  UNFINISHED every further sequence of calls of make_move ends with the status UNFINISHED:
  no winner is ever declared.
\<close>

theorem no_kings_no_winner:
  "(wf_board (board g) \<and> \<not> has_king (board g) White \<and> \<not> has_king (board g) Black \<longrightarrow>
      game_state (check_king g) = game_state g) \<and>
   (wf_board (board g) \<and> make_move g point_A point_B = Inr (True, g') \<and>
      \<not> has_king (board g') White \<and> \<not> has_king (board g') Black \<longrightarrow>
      game_state g' = UNFINISHED) \<and>
   (wf_board (board g) \<and> game_state g = UNFINISHED \<and>
      \<not> has_king (board g) White \<and> \<not> has_king (board g) Black \<and>
      play g moves = Inr (results, g'') \<longrightarrow>
      game_state g'' = UNFINISHED)"
proof (intro conjI impI)
  assume "wf_board (board g) \<and> \<not> has_king (board g) White \<and> \<not> has_king (board g) Black"
  then show "game_state (check_king g) = game_state g"
    using check_king_state[of g] by simp
next
  assume a: "wf_board (board g) \<and> make_move g point_A point_B = Inr (True, g') \<and>
      \<not> has_king (board g') White \<and> \<not> has_king (board g') Black"
  then have wf: "wf_board (board g)" and mv: "make_move g point_A point_B = Inr (True, g')"
    by simp_all
  from make_move_True_D[OF wf mv] have u: "game_state g = UNFINISHED"
    and wf': "wf_board (board g')"
    and s: "game_state g' = game_state (check_king (g\<lparr>board := board g'\<rparr>))"
    by simp_all
  have "game_state (check_king (g\<lparr>board := board g'\<rparr>)) = game_state g"
    using check_king_state[of "g\<lparr>board := board g'\<rparr>"] wf' a by simp
  with s u show "game_state g' = UNFINISHED" by simp
next
  assume a: "wf_board (board g) \<and> game_state g = UNFINISHED \<and>
      \<not> has_king (board g) White \<and> \<not> has_king (board g) Black \<and>
      play g moves = Inr (results, g'')"
  then have "wf_board (board g)" "game_state g = UNFINISHED"
    "\<not> has_king (board g) White \<and> \<not> has_king (board g) Black"
    "play g moves = Inr (results, g'')"
    by simp_all
  from play_kingless[OF this] show "game_state g'' = UNFINISHED" by simp
qed

theorem no_kings_no_winner_witness:
  "wf_board (board kings_by_e5) \<and> make_move kings_by_e5 (py_str ''d4'') (py_str ''e5'') = Inr (True, kingless) \<and>
   \<not> has_king (board kingless) White \<and> \<not> has_king (board kingless) Black \<and>
   game_state kingless = UNFINISHED \<and> game_state (check_king kingless) = game_state kingless \<and>
   (\<exists>g''. play kingless [((py_str ''a5''), (py_str ''a4'')), ((py_str ''e4''), (py_str ''e5''))] = Inr ([True, True], g'') \<and>
      game_state g'' = UNFINISHED)"
  using no_kings_no_winner[of kingless "py_str ''d4''" "py_str ''e5''" kingless
      "[((py_str ''a5''), (py_str ''a4'')), ((py_str ''e4''), (py_str ''e5''))]" "[True, True]"]
    no_kings_no_winner[of kings_by_e5 "py_str ''d4''" "py_str ''e5''" kingless]
    kingless_facts make_move_d4e5 play_on_kingless
  by blast

subsection \<open>Malformed notation, and the inputs on which the rules go wrong\<close>

lemma check_move_raises:
  assumes wf: "wf_board bd" and bad: "\<not> well_formed pa \<or> \<not> well_formed pb"
  shows "\<exists>e. check_move pa pb col bd = Inl e"
proof (cases "indices pa pb")
  case (Inl e)
  then show ?thesis by (simp add: check_move_def)
next
  case (Inr t)
  then obtain rA rB cA cB where i: "indices pa pb = Inr (rA, rB, cA, cB)"
    by (cases t) auto
  note b = indices_bounds[OF i]
  show ?thesis
  proof (cases "well_formed pa")
    case False
    with b have "rA < 1 \<or> 8 < rA" by auto
    from board_get_KeyError[OF wf this] i show ?thesis
      by (simp add: check_move_def)
  next
    case True
    with b have "in_bounds rA cA" by (simp add: in_bounds_def)
    from board_get_in_bounds[OF wf this] obtain sA where a: "board_get bd rA cA = Inr sA"
      by blast
    from True bad b have "rB < 1 \<or> 8 < rB" by auto
    from board_get_KeyError[OF wf this] i a show ?thesis
      by (simp add: check_move_def)
  qed
qed

text \<open>
  Every method reads its two strings through the prologue only, and the prologue reads the
  first two characters only.
\<close>

lemma indices_two_characters:
  "indices (f # r # xs) (f' # r' # ys) = indices [f, r] [f', r']"
  by (simp add: indices_def list_get_def)

lemma get_movement_indices:
  assumes "indices pa pb = indices pa' pb'"
  shows "get_movement p pa pb col bd = get_movement p pa' pb' col bd"
proof (cases p)
  case (Piece c k)
  then show ?thesis
    using assms
    by (cases k)
       (simp_all add: Pawn_get_movement_def King_get_movement_def Knight_get_movement_def
          Rook_get_movement_def Bishop_get_movement_def Queen_get_movement_def)
qed

lemma check_move_indices:
  assumes "indices pa pb = indices pa' pb'"
  shows "check_move pa pb col bd = check_move pa' pb' col bd"
  unfolding check_move_def assms get_movement_indices[OF assms]
  by (rule refl)

lemma move_piece_indices:
  assumes "indices pa pb = indices pa' pb'"
  shows "move_piece pa pb bd = move_piece pa' pb' bd"
  using assms by (simp add: move_piece_def)

lemma make_move_indices:
  assumes "indices pa pb = indices pa' pb'"
  shows "make_move g pa pb = make_move g pa' pb'"
  unfolding make_move_def move_decorator_def make_move_body_def
    check_move_indices[OF assms] move_piece_indices[OF assms]
  by (rule refl)

text \<open>
  Claim C9, as amended. While the status is UNFINISHED, a call of make_move in which either
  string has no second character, a first character other than a to h, or a second
  character that is not a decimal digit of value 1 to 8 raises: it returns no boolean. Only
  the first two characters of each string are read, so characters after the second never
  change the outcome.
\<close>

theorem malformed_move_raises_while_unfinished:
  "(wf_board (board g) \<and> game_state g = UNFINISHED \<and>
      (\<not> well_formed point_A \<or> \<not> well_formed point_B) \<longrightarrow>
      (\<exists>e. make_move g point_A point_B = Inl e)) \<and>
   make_move g (f # r # xs) (f' # r' # ys) = make_move g [f, r] [f', r']"
proof (intro conjI impI)
  assume a: "wf_board (board g) \<and> game_state g = UNFINISHED \<and>
      (\<not> well_formed point_A \<or> \<not> well_formed point_B)"
  then have wf: "wf_board (board g)" and bad: "\<not> well_formed point_A \<or> \<not> well_formed point_B"
    by simp_all
  from check_move_raises[OF wf bad] obtain e where
    "check_move point_A point_B (turn g) (board g) = Inl e"
    by blast
  with a have "make_move g point_A point_B = Inl e"
    by (simp add: make_move_def move_decorator_def make_move_body_def)
  then show "\<exists>e. make_move g point_A point_B = Inl e" by blast
next
  show "make_move g (f # r # xs) (f' # r' # ys) = make_move g [f, r] [f', r']"
    by (rule make_move_indices) (rule indices_two_characters)
qed

lemma new_game_facts:
  "wf_board (board new_game) \<and> game_state new_game = UNFINISHED \<and>
   \<not> well_formed (py_str ''e9'') \<and> \<not> well_formed (py_str ''z9'') \<and>
   \<not> well_formed (py_str ''e'') \<and> well_formed (py_str ''e2'') \<and>
   py_str ''e2x'' = 101 # 50 # [120] \<and> py_str ''e4zz'' = 101 # 52 # [122, 122] \<and>
   py_str ''e2'' = [101, 50] \<and> py_str ''e4'' = [101, 52]"
  by code_simp

theorem malformed_move_raises_while_unfinished_witness:
  "wf_board (board new_game) \<and> game_state new_game = UNFINISHED \<and>
   \<not> well_formed (py_str ''e9'') \<and>
   (\<exists>e. make_move new_game (py_str ''e2'') (py_str ''e9'') = Inl e) \<and>
   make_move new_game (py_str ''e2x'') (py_str ''e4zz'') = Inr (True, after_e2e4)"
proof -
  from malformed_move_raises_while_unfinished[of new_game "py_str ''e2''" "py_str ''e9''"]
    new_game_facts
  have 1: "\<exists>e. make_move new_game (py_str ''e2'') (py_str ''e9'') = Inl e"
    by blast
  from malformed_move_raises_while_unfinished[of new_game _ _ 101 50 "[120]" 101 52 "[122, 122]"]
  have "make_move new_game (101 # 50 # [120]) (101 # 52 # [122, 122]) =
        make_move new_game [101, 50] [101, 52]"
    by blast
  with new_game_facts make_move_e2e4
  have 2: "make_move new_game (py_str ''e2x'') (py_str ''e4zz'') = Inr (True, after_e2e4)"
    by simp
  from 1 2 new_game_facts show ?thesis by blast
qed

text \<open>
  Claim C9 as stated fails in three ways: in the game won by White, reached by play from
  the starting position, the square z9 is answered with False; on the new game the
  destination e10 is read as e1 and answered with False; and the destination whose second
  character is the Arabic-Indic digit four (code point 1636) is read as e4 and the move is
  played.
\<close>

theorem malformed_move_answered_with_boolean:
  "play new_game knight_takes_e7 = Inr (replicate 5 True, white_won) \<and>
   \<not> well_formed (py_str ''z9'') \<and>
   make_move white_won (py_str ''z9'') (py_str ''e4'') = Inr (False, white_won) \<and>
   make_move new_game (py_str ''e2'') (py_str ''e10'') = Inr (False, new_game) \<and>
   make_move new_game (py_str ''e2'') [101, 1636] = Inr (True, after_e2e4)"
  by code_simp

text \<open>
  Claim C1 at a failing input. After e2-e4 and a7-a6 the Queen's rule accepts d1 to e3, one
  file and two ranks away, which the Rook's rule and the Bishop's rule both reject, and
  make_move carries the move out.
\<close>

theorem Queen_accepts_crooked_move:
  "(case play new_game [((py_str ''e2''), (py_str ''e4'')), ((py_str ''a7''), (py_str ''a6''))] of
      Inl e \<Rightarrow> False
    | Inr (results, g) \<Rightarrow>
        results = [True, True] \<and> turn g = White \<and>
        indices (py_str ''d1'') (py_str ''e3'') = Inr (1, 3, 3, 4) \<and>
        board_get (board g) 1 3 = Inr (Some (Piece White Queen)) \<and>
        Queen_get_movement (py_str ''d1'') (py_str ''e3'') White (board g) = Inr True \<and>
        Rook_get_movement (py_str ''d1'') (py_str ''e3'') White (board g) = Inr False \<and>
        Bishop_get_movement (py_str ''d1'') (py_str ''e3'') White (board g) = Inr False \<and>
        map_sum id fst (make_move g (py_str ''d1'') (py_str ''e3'')) = Inr True)"
  by code_simp

text \<open>The second flag of the loop of check_move never changes, so its veto never fires.\<close>

lemma dead_columns_black:
  "dead_columns bd row cs (dead_white, dead_black) = Inr (dead_white', dead_black') \<Longrightarrow>
     dead_black' = dead_black"
proof (induction cs arbitrary: dead_white)
  case Nil
  then show ?case by simp
next
  case (Cons column cs)
  then show ?case
    by (auto simp: Let_def split: if_splits sum.splits option.splits)
qed

lemma dead_rows_black:
  "dead_rows bd rs cs (dead_white, dead_black) = Inr (dead_white', dead_black') \<Longrightarrow>
     dead_black' = dead_black"
proof (induction rs arbitrary: dead_white)
  case Nil
  then show ?case by simp
next
  case (Cons row rs)
  from Cons.prems obtain w1 b1 where
    1: "dead_columns bd row cs (dead_white, dead_black) = Inr (w1, b1)"
    and 2: "dead_rows bd rs cs (w1, b1) = Inr (dead_white', dead_black')"
    by (auto split: sum.splits)
  from dead_columns_black[OF 1] have "b1 = dead_black" .
  with 2 Cons.IH show ?case by blast
qed

text \<open>
  Claim C2 at a failing input. In the game before the capture on e5 both kings stand in the
  3x3 block around e5, the pawn's rule accepts d4 to e5, and check_move answers True;
  make_move carries the capture out and both kings are gone.
\<close>

theorem both_kings_blast_accepted:
  "play new_game (butlast both_kings_blast) = Inr (replicate 10 True, kings_by_e5) \<and>
   indices (py_str ''d4'') (py_str ''e5'') = Inr (4, 5, 3, 4) \<and>
   in_blast 5 4 4 5 \<and> board_get (board kings_by_e5) 4 5 = Inr (Some (Piece White King)) \<and>
   in_blast 5 4 6 5 \<and> board_get (board kings_by_e5) 6 5 = Inr (Some (Piece Black King)) \<and>
   Pawn_get_movement (py_str ''d4'') (py_str ''e5'') (turn kings_by_e5) (board kings_by_e5) = Inr True \<and>
   check_move (py_str ''d4'') (py_str ''e5'') (turn kings_by_e5) (board kings_by_e5) = Inr True \<and>
   make_move kings_by_e5 (py_str ''d4'') (py_str ''e5'') = Inr (True, kingless) \<and>
   board_get (board kingless) 4 5 = Inr None \<and> board_get (board kingless) 6 5 = Inr None"
  by code_simp

text \<open>
  Claim C3 at a failing input. With a black knight on d4 the rule of the white pawn on its
  home square d2 accepts the straight advance to the occupied square d4, and make_move
  carries it out as a capture.
\<close>

theorem home_rank_pawn_advances_onto_piece:
  "(case play new_game [((py_str ''a2''), (py_str ''a3'')), ((py_str ''b8''), (py_str ''c6'')), ((py_str ''a3''), (py_str ''a4'')), ((py_str ''c6''), (py_str ''d4''))] of
      Inl e \<Rightarrow> False
    | Inr (results, g) \<Rightarrow>
        results = [True, True, True, True] \<and> turn g = White \<and>
        indices (py_str ''d2'') (py_str ''d4'') = Inr (2, 4, 3, 3) \<and>
        board_get (board g) 2 3 = Inr (Some (Piece White Pawn)) \<and>
        board_get (board g) 4 3 = Inr (Some (Piece Black Knight)) \<and>
        Pawn_get_movement (py_str ''d2'') (py_str ''d4'') White (board g) = Inr True \<and>
        map_sum id fst (make_move g (py_str ''d2'') (py_str ''d4'')) = Inr True)"
  by code_simp

text \<open>Where the Queen does agree with the Rook and the Bishop, and what the home-rank branch of the pawn reads.\<close>

lemma Queen_like_Rook_on_lines:
  assumes "indices pa pb = Inr (rA, rB, cA, cB)" and "rA = rB \<or> cA = cB"
  shows "Queen_get_movement pa pb col bd = Rook_get_movement pa pb col bd"
  using assms by (auto simp: Queen_get_movement_def Rook_get_movement_def)

lemma Queen_like_Bishop_on_diagonals:
  assumes "indices pa pb = Inr (rA, rB, cA, cB)" and "\<bar>rA - rB\<bar> = \<bar>cA - cB\<bar>"
  shows "Queen_get_movement pa pb col bd = Bishop_get_movement pa pb col bd"
  using assms by (auto simp: Queen_get_movement_def Bishop_get_movement_def)

lemma home_rank_pawn_ignores_board:
  assumes "indices pa pb = Inr (2, rB, cA, cA)"
  shows "Pawn_get_movement pa pb White bd = Inr (rB = 3 \<or> rB = 4)"
  using assms by (auto simp: Pawn_get_movement_def)

lemma home_rank_black_pawn_ignores_board:
  assumes "indices pa pb = Inr (7, rB, cA, cA)"
  shows "Pawn_get_movement pa pb Black bd = Inr (rB = 6 \<or> rB = 5)"
  using assms by (auto simp: Pawn_get_movement_def)

end
